theory Spec2Isabelle
  imports Main
begin

section \<open>Memory model\<close>

text \<open>
  The container of \<^verbatim>\<open>vector.h\<close> works on raw storage: \<^verbatim>\<open>RawMemory<T>\<close> owns a block
  obtained from \<^verbatim>\<open>operator new\<close> and \<^verbatim>\<open>Vector<T>\<close> decides which slots of the block hold
  live objects. The model keeps an explicit heap of blocks. A block is a list of slots; a
  slot is \<open>None\<close> while it is raw storage and \<open>Some x\<close> while it holds a live \<open>T\<close> of value
  \<open>x\<close>. Address \<open>0\<close> is \<^verbatim>\<open>nullptr\<close>. A \<^verbatim>\<open>T*\<close> is a block address with an element offset.

  Sizes (\<^verbatim>\<open>size_t\<close>) are natural numbers: a size is bounded by the number of elements of
  an existing allocation, which is at most \<^verbatim>\<open>PTRDIFF_MAX\<close>, so \<^verbatim>\<open>size_ + 1\<close> and
  \<^verbatim>\<open>size_ * 2\<close> do not wrap. Where the source subtracts two sizes, the model writes out
  the case in which the difference would wrap.
\<close>

type_synonym addr = nat

definition nullptr :: addr where
  "nullptr = 0"

type_synonym ptr = "addr \<times> nat"

definition ptr_add :: "ptr \<Rightarrow> nat \<Rightarrow> ptr" where
  "ptr_add p k = (fst p, snd p + k)"

text \<open>
  What can go wrong: \<^verbatim>\<open>operator new\<close> throws \<^verbatim>\<open>std::bad_alloc\<close>, a copy constructor of
  \<open>T\<close> throws, or the program leaves defined behaviour (a failed \<^verbatim>\<open>assert\<close>, a read of raw
  storage, an access outside a block, a second release of a block).
\<close>

datatype error = bad_alloc | copy_threw | undefined_behaviour

text \<open>The operations of \<open>T\<close> that the container invokes, recorded in the order they run.\<close>

datatype event = CopyCtor | MoveCtor | ArgsCtor | ValueCtor | CopyAssign | MoveAssign | Dtor

text \<open>
  The element type: the three traits the source queries, and the behaviour of its
  operations. \<open>copy_throws k\<close> tells whether the copy-constructor invocation number \<open>k\<close>
  (counted from \<open>0\<close> over the whole run) throws; \<open>moved_from x\<close> is the value a live object
  of value \<open>x\<close> is left with after it has been moved from; \<open>value_init\<close> is the value of
  a value-initialised object. Moves, assignments, value-initialisation and destructors
  are taken not to throw.
\<close>

record 'a elem_type =
  nothrow_move_constructible :: bool
  copy_constructible :: bool
  move_assignable :: bool
  copy_throws :: "nat \<Rightarrow> bool"
  moved_from :: "'a \<Rightarrow> 'a"
  value_init :: 'a

text \<open>
  The private members \<^verbatim>\<open>buffer_\<close>, \<^verbatim>\<open>capacity_\<close>, \<^verbatim>\<open>data_\<close> and \<^verbatim>\<open>size_\<close> of the source are
  the fields \<open>m_buffer\<close>, \<open>m_capacity\<close>, \<open>m_data\<close> and \<open>m_size\<close> (an identifier cannot
  end in an underscore here).
\<close>

record RawMemory =
  m_buffer :: addr
  m_capacity :: nat

record Vector =
  m_data :: RawMemory
  m_size :: nat

text \<open>
  The machine state: the heap of blocks, the next fresh block address (\<open>brk\<close>), the number
  of element slots the allocator can still hand out (\<open>avail\<close>), the \<^verbatim>\<open>Vector\<close> objects and
  the free-standing \<^verbatim>\<open>RawMemory\<close> objects by their own addresses (so that
  \<^verbatim>\<open>this != std::addressof(rhs)\<close> is a comparison of addresses), the number of
  copy-constructor invocations so far, and the trace of element operations.
\<close>

record 'a machine =
  heap :: "addr \<Rightarrow> 'a option list option"
  brk :: addr
  avail :: nat
  vecs :: "nat \<Rightarrow> Vector option"
  raws :: "nat \<Rightarrow> RawMemory option"
  copies :: nat
  trace :: "event list"

type_synonym ('a, 'r) action = "'a machine \<Rightarrow> (error + 'r) \<times> 'a machine"

definition ok :: "'r \<Rightarrow> ('a, 'r) action" where
  "ok x s = (Inr x, s)"

definition throw :: "error \<Rightarrow> ('a, 'r) action" where
  "throw e s = (Inl e, s)"

definition andthen :: "('a, 'r) action \<Rightarrow> ('r \<Rightarrow> ('a, 'q) action) \<Rightarrow> ('a, 'q) action" where
  "andthen m f s = (case m s of (Inl e, s') \<Rightarrow> (Inl e, s') | (Inr x, s') \<Rightarrow> f x s')"

text \<open>
  \<open>unwinding d m\<close>: \<open>m\<close> runs in the scope of a local object whose destructor is \<open>d\<close>. When
  a C++ exception leaves \<open>m\<close> the stack is unwound, so \<open>d\<close> runs and the exception goes on.
\<close>

definition unwinding :: "('a, unit) action \<Rightarrow> ('a, 'r) action \<Rightarrow> ('a, 'r) action" where
  "unwinding d m s =
     (case m s of
        (Inr x, s') \<Rightarrow> (Inr x, s')
      | (Inl undefined_behaviour, s') \<Rightarrow> (Inl undefined_behaviour, s')
      | (Inl e, s') \<Rightarrow> (case d s' of (Inl u, s'') \<Rightarrow> (Inl u, s'') | (Inr _, s'') \<Rightarrow> (Inl e, s'')))"

definition log :: "event \<Rightarrow> ('a, unit) action" where
  "log e s = (Inr (), s\<lparr>trace := trace s @ [e]\<rparr>)"

subsection \<open>Slots\<close>

text \<open>
  \<open>peek p s\<close> is \<open>None\<close> when \<open>p\<close> does not point into a block of the heap, \<open>Some None\<close>
  when it points to raw storage and \<open>Some (Some x)\<close> when it points to a live object.
\<close>

definition peek :: "ptr \<Rightarrow> 'a machine \<Rightarrow> 'a option option" where
  "peek p s =
     (case heap s (fst p) of
        None \<Rightarrow> None
      | Some b \<Rightarrow> if snd p < length b then Some (b ! snd p) else None)"

definition poke :: "ptr \<Rightarrow> 'a option \<Rightarrow> 'a machine \<Rightarrow> 'a machine" where
  "poke p v s = s\<lparr>heap := (heap s)(fst p := map_option (\<lambda>b. b[snd p := v]) (heap s (fst p)))\<rparr>"

text \<open>Reading a live object.\<close>

definition load :: "ptr \<Rightarrow> ('a, 'a) action" where
  "load p s = (case peek p s of Some (Some x) \<Rightarrow> (Inr x, s) | _ \<Rightarrow> (Inl undefined_behaviour, s))"

text \<open>Starting the lifetime of an object of value \<open>x\<close> in raw storage (placement new).\<close>

definition construct_at :: "ptr \<Rightarrow> 'a \<Rightarrow> ('a, unit) action" where
  "construct_at p x s =
     (case peek p s of Some None \<Rightarrow> (Inr (), poke p (Some x) s) | _ \<Rightarrow> (Inl undefined_behaviour, s))"

text \<open>Giving a live object a new value (the effect of an assignment on its target).\<close>

definition overwrite :: "ptr \<Rightarrow> 'a \<Rightarrow> ('a, unit) action" where
  "overwrite p x s =
     (case peek p s of Some (Some _) \<Rightarrow> (Inr (), poke p (Some x) s) | _ \<Rightarrow> (Inl undefined_behaviour, s))"

text \<open>\<^verbatim>\<open>std::destroy_at(p)\<close>: the destructor runs and the slot is raw storage again.\<close>

definition destroy_at :: "ptr \<Rightarrow> ('a, unit) action" where
  "destroy_at p s =
     (case peek p s of
        Some (Some _) \<Rightarrow> log Dtor (poke p None s)
      | _ \<Rightarrow> (Inl undefined_behaviour, s))"

subsection \<open>Element operations\<close>

text \<open>
  A \<^verbatim>\<open>const T&\<close> refers either to an object outside the modelled heap (a local variable
  of the caller, given by its value) or to a slot of a block.
\<close>

datatype 'a cref = Outside 'a | Inside ptr

definition deref :: "'a cref \<Rightarrow> ('a, 'a) action" where
  "deref r = (case r of Outside x \<Rightarrow> ok x | Inside p \<Rightarrow> load p)"

text \<open>
  The argument packs \<^verbatim>\<open>Args&&...\<close> the container forwards to a constructor of \<open>T\<close>:
  an lvalue \<^verbatim>\<open>const T&\<close> (copy constructor), an rvalue \<^verbatim>\<open>T&&\<close> bound to an expiring object
  of the caller holding \<open>x\<close> (move constructor), or other arguments from which \<open>T\<close>
  builds the value \<open>x\<close>.
\<close>

datatype 'a args = Lvalue "'a cref" | Rvalue 'a | Args 'a

text \<open>The copy constructor: invocation number \<open>copies s\<close>; it may throw.\<close>

definition copy_ctor :: "'a elem_type \<Rightarrow> 'a cref \<Rightarrow> ('a, 'a) action" where
  "copy_ctor T r =
     andthen (deref r) (\<lambda>x s.
       if copy_throws T (copies s) then (Inl copy_threw, s\<lparr>copies := copies s + 1\<rparr>)
       else (Inr x, s\<lparr>copies := copies s + 1, trace := trace s @ [CopyCtor]\<rparr>))"

text \<open>\<^verbatim>\<open>T(std::forward<Args>(args)...)\<close>: the value of the object that is constructed.\<close>

definition make :: "'a elem_type \<Rightarrow> 'a args \<Rightarrow> ('a, 'a) action" where
  "make T a =
     (case a of
        Lvalue r \<Rightarrow> copy_ctor T r
      | Rvalue x \<Rightarrow> andthen (log MoveCtor) (\<lambda>_. ok x)
      | Args x \<Rightarrow> andthen (log ArgsCtor) (\<lambda>_. ok x))"

text \<open>\<^verbatim>\<open>new (p) T(std::forward<Args>(args)...)\<close>\<close>

definition construct :: "'a elem_type \<Rightarrow> ptr \<Rightarrow> 'a args \<Rightarrow> ('a, unit) action" where
  "construct T p a = andthen (make T a) (\<lambda>x. construct_at p x)"

text \<open>\<^verbatim>\<open>new (dst) T(*src)\<close>\<close>

definition copy_construct :: "'a elem_type \<Rightarrow> ptr \<Rightarrow> ptr \<Rightarrow> ('a, unit) action" where
  "copy_construct T dst src = construct T dst (Lvalue (Inside src))"

text \<open>\<^verbatim>\<open>new (dst) T(std::move(*src))\<close>: the source stays alive, in its moved-from state.\<close>

definition move_construct :: "'a elem_type \<Rightarrow> ptr \<Rightarrow> ptr \<Rightarrow> ('a, unit) action" where
  "move_construct T dst src =
     andthen (load src) (\<lambda>x.
     andthen (overwrite src (moved_from T x)) (\<lambda>_.
     andthen (log MoveCtor) (\<lambda>_.
     construct_at dst x)))"

text \<open>\<^verbatim>\<open>*dst = std::move(*src)\<close>\<close>

definition move_assign :: "'a elem_type \<Rightarrow> ptr \<Rightarrow> ptr \<Rightarrow> ('a, unit) action" where
  "move_assign T dst src =
     andthen (load src) (\<lambda>x.
     andthen (overwrite src (moved_from T x)) (\<lambda>_.
     andthen (log MoveAssign) (\<lambda>_.
     overwrite dst x)))"

text \<open>\<^verbatim>\<open>*dst = *src\<close>\<close>

definition copy_assign :: "ptr \<Rightarrow> ptr \<Rightarrow> ('a, unit) action" where
  "copy_assign dst src =
     andthen (load src) (\<lambda>x.
     andthen (log CopyAssign) (\<lambda>_.
     overwrite dst x))"

text \<open>\<^verbatim>\<open>new (p) T()\<close>\<close>

definition value_construct :: "'a elem_type \<Rightarrow> ptr \<Rightarrow> ('a, unit) action" where
  "value_construct T p = andthen (log ValueCtor) (\<lambda>_. construct_at p (value_init T))"

subsection \<open>The standard algorithms the source calls\<close>

text \<open>
  \<^verbatim>\<open>std::uninitialized_copy_n(src, n, dst)\<close> copy-constructs \<open>n\<close> objects; when a copy
  throws, the objects it has constructed are destroyed and the exception goes on.
\<close>

fun uninitialized_copy_n :: "'a elem_type \<Rightarrow> ptr \<Rightarrow> nat \<Rightarrow> ptr \<Rightarrow> ('a, unit) action" where
  "uninitialized_copy_n T src 0 dst = ok ()"
| "uninitialized_copy_n T src (Suc n) dst =
     andthen (copy_construct T dst src) (\<lambda>_.
       unwinding (destroy_at dst) (uninitialized_copy_n T (ptr_add src 1) n (ptr_add dst 1)))"

text \<open>\<^verbatim>\<open>std::uninitialized_move_n(src, n, dst)\<close>\<close>

fun uninitialized_move_n :: "'a elem_type \<Rightarrow> ptr \<Rightarrow> nat \<Rightarrow> ptr \<Rightarrow> ('a, unit) action" where
  "uninitialized_move_n T src 0 dst = ok ()"
| "uninitialized_move_n T src (Suc n) dst =
     andthen (move_construct T dst src) (\<lambda>_.
       uninitialized_move_n T (ptr_add src 1) n (ptr_add dst 1))"

text \<open>\<^verbatim>\<open>std::uninitialized_value_construct_n(p, n)\<close>\<close>

fun uninitialized_value_construct_n :: "'a elem_type \<Rightarrow> ptr \<Rightarrow> nat \<Rightarrow> ('a, unit) action" where
  "uninitialized_value_construct_n T p 0 = ok ()"
| "uninitialized_value_construct_n T p (Suc n) =
     andthen (value_construct T p) (\<lambda>_. uninitialized_value_construct_n T (ptr_add p 1) n)"

text \<open>\<^verbatim>\<open>std::destroy_n(p, n)\<close>\<close>

fun destroy_n :: "ptr \<Rightarrow> nat \<Rightarrow> ('a, unit) action" where
  "destroy_n p 0 = ok ()"
| "destroy_n p (Suc n) = andthen (destroy_at p) (\<lambda>_. destroy_n (ptr_add p 1) n)"

text \<open>\<^verbatim>\<open>std::copy_n(src, n, dst)\<close>: copy-assignment, front to back.\<close>

fun copy_n :: "ptr \<Rightarrow> nat \<Rightarrow> ptr \<Rightarrow> ('a, unit) action" where
  "copy_n src 0 dst = ok ()"
| "copy_n src (Suc n) dst =
     andthen (copy_assign dst src) (\<lambda>_. copy_n (ptr_add src 1) n (ptr_add dst 1))"

text \<open>
  \<^verbatim>\<open>std::move_backward(first, last, d_last)\<close> move-assigns the \<open>n = last - first\<close> objects
  of \<open>[first, last)\<close> to the range that ends at \<open>d_last\<close>, the last object first. Its
  precondition is that \<open>[first, last)\<close> is a range; the target range starts at
  \<open>d_last - n\<close>, which must not lie before the block.
\<close>

fun move_backward_n :: "'a elem_type \<Rightarrow> ptr \<Rightarrow> nat \<Rightarrow> ptr \<Rightarrow> ('a, unit) action" where
  "move_backward_n T first 0 d_first = ok ()"
| "move_backward_n T first (Suc n) d_first =
     andthen (move_assign T (ptr_add d_first n) (ptr_add first n)) (\<lambda>_.
       move_backward_n T first n d_first)"

definition move_backward :: "'a elem_type \<Rightarrow> ptr \<Rightarrow> ptr \<Rightarrow> ptr \<Rightarrow> ('a, unit) action" where
  "move_backward T first lst d_last =
     (if fst first = fst lst \<and> snd first \<le> snd lst \<and> snd lst - snd first \<le> snd d_last
      then move_backward_n T first (snd lst - snd first)
             (fst d_last, snd d_last - (snd lst - snd first))
      else throw undefined_behaviour)"

section \<open>RawMemory\<close>

text \<open>
  \<^verbatim>\<open>Allocate\<close>: no block for size \<open>0\<close>; otherwise \<^verbatim>\<open>operator new\<close>, which throws when the
  request cannot be met and returns a fresh block of raw slots otherwise.
\<close>

definition Allocate :: "nat \<Rightarrow> ('a, addr) action" where
  "Allocate n s =
     (if n = 0 then (Inr nullptr, s)
      else if avail s < n then (Inl bad_alloc, s)
      else (Inr (brk s),
            s\<lparr>heap := (heap s)(brk s \<mapsto> replicate n None), brk := brk s + 1,
              avail := avail s - n\<rparr>))"

text \<open>
  \<^verbatim>\<open>Deallocate\<close>: \<^verbatim>\<open>operator delete\<close>, which does nothing for \<^verbatim>\<open>nullptr\<close> and must be given
  the address of a block that is still allocated otherwise. The objects in the block
  are not destroyed.
\<close>

definition Deallocate :: "addr \<Rightarrow> ('a, unit) action" where
  "Deallocate buf s =
     (if buf = nullptr then (Inr (), s)
      else (case heap s buf of
              None \<Rightarrow> (Inl undefined_behaviour, s)
            | Some b \<Rightarrow> (Inr (), s\<lparr>heap := (heap s)(buf := None), avail := avail s + length b\<rparr>)))"

text \<open>\<^verbatim>\<open>RawMemory() = default\<close>\<close>

definition RawMemory_default :: RawMemory where
  "RawMemory_default = \<lparr>m_buffer = nullptr, m_capacity = 0\<rparr>"

text \<open>\<^verbatim>\<open>explicit RawMemory(size_t capacity)\<close>\<close>

definition RawMemory_ctor :: "nat \<Rightarrow> ('a, RawMemory) action" where
  "RawMemory_ctor capacity =
     andthen (Allocate capacity) (\<lambda>a. ok \<lparr>m_buffer = a, m_capacity = capacity\<rparr>)"

text \<open>\<^verbatim>\<open>~RawMemory()\<close>\<close>

definition RawMemory_dtor :: "RawMemory \<Rightarrow> ('a, unit) action" where
  "RawMemory_dtor m = Deallocate (m_buffer m)"

definition GetAddress :: "RawMemory \<Rightarrow> ptr" where
  "GetAddress m = (m_buffer m, 0)"

text \<open>\<^verbatim>\<open>Swap\<close> on two objects given by value: the pair after the exchange.\<close>

definition RawMemory_Swap :: "RawMemory \<Rightarrow> RawMemory \<Rightarrow> RawMemory \<times> RawMemory" where
  "RawMemory_Swap m other =
     (m\<lparr>m_buffer := m_buffer other, m_capacity := m_capacity other\<rparr>,
      other\<lparr>m_buffer := m_buffer m, m_capacity := m_capacity m\<rparr>)"

text \<open>\<^verbatim>\<open>operator+\<close> and \<^verbatim>\<open>operator[]\<close>, with their assertions.\<close>

definition RawMemory_plus :: "RawMemory \<Rightarrow> nat \<Rightarrow> ('a, ptr) action" where
  "RawMemory_plus m offset =
     (if offset \<le> m_capacity m then ok (m_buffer m, offset) else throw undefined_behaviour)"

definition RawMemory_index :: "RawMemory \<Rightarrow> nat \<Rightarrow> ('a, ptr) action" where
  "RawMemory_index m index =
     (if index < m_capacity m then ok (m_buffer m, index) else throw undefined_behaviour)"

text \<open>
  The move operations act on objects with an identity, here the free-standing
  \<^verbatim>\<open>RawMemory\<close> objects of the machine. \<^verbatim>\<open>RawMemory(RawMemory&& other)\<close> builds a new
  object at \<open>this\<close> with \<^verbatim>\<open>std::exchange\<close>.
\<close>

definition RawMemory_move_ctor :: "nat \<Rightarrow> nat \<Rightarrow> ('a, unit) action" where
  "RawMemory_move_ctor this other s =
     (case raws s other of
        None \<Rightarrow> (Inl undefined_behaviour, s)
      | Some other_m \<Rightarrow>
          (Inr (),
           s\<lparr>raws := (raws s)
                (other \<mapsto> other_m\<lparr>m_buffer := nullptr, m_capacity := 0\<rparr>,
                 this \<mapsto> \<lparr>m_buffer = m_buffer other_m, m_capacity = m_capacity other_m\<rparr>)\<rparr>))"

text \<open>
  \<^verbatim>\<open>RawMemory& operator=(RawMemory&& rhs)\<close>: \<^verbatim>\<open>Deallocate(buffer_); capacity_ = 0;
  Swap(rhs);\<close> when the two addresses differ.
\<close>

definition RawMemory_move_assign :: "nat \<Rightarrow> nat \<Rightarrow> ('a, unit) action" where
  "RawMemory_move_assign this rhs s =
     (if this \<noteq> rhs then
        (case (raws s this, raws s rhs) of
           (Some this_m, Some rhs_m) \<Rightarrow>
             andthen (Deallocate (m_buffer this_m)) (\<lambda>_ s1.
               let (this_m', rhs_m') = RawMemory_Swap (this_m\<lparr>m_capacity := 0\<rparr>) rhs_m
               in (Inr (), s1\<lparr>raws := (raws s1)(this \<mapsto> this_m', rhs \<mapsto> rhs_m')\<rparr>)) s
         | _ \<Rightarrow> (Inl undefined_behaviour, s))
      else (Inr (), s))"

text \<open>The destructor of a free-standing \<^verbatim>\<open>RawMemory\<close> object.\<close>

definition RawMemory_destroy :: "nat \<Rightarrow> ('a, unit) action" where
  "RawMemory_destroy this s =
     (case raws s this of
        None \<Rightarrow> (Inl undefined_behaviour, s)
      | Some m \<Rightarrow> andthen (RawMemory_dtor m) (\<lambda>_ s1. (Inr (), s1\<lparr>raws := (raws s1)(this := None)\<rparr>)) s)"

section \<open>Vector\<close>

text \<open>
  Member functions take the address \<open>this\<close> of the \<^verbatim>\<open>Vector\<close> object they act on. An
  iterator is \<^verbatim>\<open>begin()\<close> plus an offset and is given by that offset, which is what
  \<^verbatim>\<open>std::distance(cbegin(), pos)\<close> computes.
\<close>

definition get_vec :: "nat \<Rightarrow> ('a, Vector) action" where
  "get_vec this s = (case vecs s this of None \<Rightarrow> (Inl undefined_behaviour, s) | Some v \<Rightarrow> (Inr v, s))"

definition put_vec :: "nat \<Rightarrow> Vector \<Rightarrow> ('a, unit) action" where
  "put_vec this v s = (Inr (), s\<lparr>vecs := (vecs s)(this \<mapsto> v)\<rparr>)"

definition set_size :: "nat \<Rightarrow> nat \<Rightarrow> ('a, unit) action" where
  "set_size this n = andthen (get_vec this) (\<lambda>v. put_vec this (v\<lparr>m_size := n\<rparr>))"

definition begin_ptr :: "Vector \<Rightarrow> ptr" where
  "begin_ptr v = GetAddress (m_data v)"

definition end_ptr :: "Vector \<Rightarrow> ptr" where
  "end_ptr v = ptr_add (GetAddress (m_data v)) (m_size v)"

text \<open>\<^verbatim>\<open>Vector() = default\<close>\<close>

definition Vector_default :: Vector where
  "Vector_default = \<lparr>m_data = RawMemory_default, m_size = 0\<rparr>"

definition Vector_new :: "nat \<Rightarrow> ('a, unit) action" where
  "Vector_new this = put_vec this Vector_default"

text \<open>\<^verbatim>\<open>Swap\<close> on two objects given by value, and on two objects of the machine.\<close>

definition Vector_Swap :: "Vector \<Rightarrow> Vector \<Rightarrow> Vector \<times> Vector" where
  "Vector_Swap v other =
     (let (d, od) = RawMemory_Swap (m_data v) (m_data other)
      in (v\<lparr>m_data := d, m_size := m_size other\<rparr>, other\<lparr>m_data := od, m_size := m_size v\<rparr>))"

definition Swap :: "nat \<Rightarrow> nat \<Rightarrow> ('a, unit) action" where
  "Swap this other =
     andthen (get_vec this) (\<lambda>v.
     andthen (get_vec other) (\<lambda>w.
       let (v', w') = Vector_Swap v w
       in andthen (put_vec other w') (\<lambda>_. put_vec this v')))"

text \<open>\<^verbatim>\<open>Size()\<close>, \<^verbatim>\<open>Capacity()\<close> and \<^verbatim>\<open>operator[]\<close> with its assertion.\<close>

definition Size :: "nat \<Rightarrow> ('a, nat) action" where
  "Size this = andthen (get_vec this) (\<lambda>v. ok (m_size v))"

definition Capacity :: "nat \<Rightarrow> ('a, nat) action" where
  "Capacity this = andthen (get_vec this) (\<lambda>v. ok (m_capacity (m_data v)))"

definition at_index :: "nat \<Rightarrow> nat \<Rightarrow> ('a, 'a) action" where
  "at_index this index =
     andthen (get_vec this) (\<lambda>v.
       if index < m_size v then andthen (RawMemory_index (m_data v) index) load
       else throw undefined_behaviour)"

text \<open>
  \<^verbatim>\<open>~Vector()\<close> for an object given by value (a local of a member function), and for an
  object of the machine.
\<close>

definition Vector_dtor :: "Vector \<Rightarrow> ('a, unit) action" where
  "Vector_dtor v =
     andthen (destroy_n (GetAddress (m_data v)) (m_size v)) (\<lambda>_. RawMemory_dtor (m_data v))"

definition Vector_destroy :: "nat \<Rightarrow> ('a, unit) action" where
  "Vector_destroy this =
     andthen (get_vec this) (\<lambda>v.
     andthen (Vector_dtor v) (\<lambda>_ s. (Inr (), s\<lparr>vecs := (vecs s)(this := None)\<rparr>)))"

text \<open>\<^verbatim>\<open>Vector(size_t size)\<close>\<close>

definition Vector_sized :: "'a elem_type \<Rightarrow> nat \<Rightarrow> nat \<Rightarrow> ('a, unit) action" where
  "Vector_sized T this n =
     andthen (RawMemory_ctor n) (\<lambda>d.
     andthen (unwinding (RawMemory_dtor d) (uninitialized_value_construct_n T (GetAddress d) n)) (\<lambda>_.
     put_vec this \<lparr>m_data = d, m_size = n\<rparr>))"

text \<open>\<^verbatim>\<open>Vector(const Vector& other)\<close>, returning the new object.\<close>

definition Vector_copy :: "'a elem_type \<Rightarrow> Vector \<Rightarrow> ('a, Vector) action" where
  "Vector_copy T other =
     andthen (RawMemory_ctor (m_size other)) (\<lambda>d.
     andthen (unwinding (RawMemory_dtor d)
                (uninitialized_copy_n T (GetAddress (m_data other)) (m_size other) (GetAddress d))) (\<lambda>_.
     ok \<lparr>m_data = d, m_size = m_size other\<rparr>))"

definition Vector_copy_ctor :: "'a elem_type \<Rightarrow> nat \<Rightarrow> nat \<Rightarrow> ('a, unit) action" where
  "Vector_copy_ctor T this other =
     andthen (get_vec other) (\<lambda>w. andthen (Vector_copy T w) (put_vec this))"

text \<open>
  \<^verbatim>\<open>Vector(Vector&& other) noexcept\<close>: the members start with their default values and
  \<^verbatim>\<open>Swap(other)\<close> runs.
\<close>

definition Vector_move_ctor :: "nat \<Rightarrow> nat \<Rightarrow> ('a, unit) action" where
  "Vector_move_ctor this other = andthen (Vector_new this) (\<lambda>_. Swap this other)"

text \<open>\<^verbatim>\<open>Vector& operator=(const Vector& rhs)\<close>\<close>

definition Vector_copy_assign :: "'a elem_type \<Rightarrow> nat \<Rightarrow> nat \<Rightarrow> ('a, unit) action" where
  "Vector_copy_assign T this rhs =
     (if this \<noteq> rhs then
        andthen (get_vec this) (\<lambda>v.
        andthen (get_vec rhs) (\<lambda>r.
          if m_capacity (m_data v) < m_size r then
            andthen (Vector_copy T r) (\<lambda>rhs_copy.
              let (v', rhs_copy') = Vector_Swap v rhs_copy
              in andthen (put_vec this v') (\<lambda>_. Vector_dtor rhs_copy'))
          else
            andthen
              (if m_size v > m_size r then
                 andthen (RawMemory_plus (m_data v) (m_size r)) (\<lambda>p.
                   destroy_n p (m_size v - m_size r))
               else
                 andthen (RawMemory_plus (m_data r) (m_size v)) (\<lambda>p.
                   uninitialized_copy_n T p (m_size r - m_size v)
                     (ptr_add (GetAddress (m_data v)) (m_size v)))) (\<lambda>_.
            andthen (copy_n (GetAddress (m_data r)) (min (m_size r) (m_size v))
                       (GetAddress (m_data v))) (\<lambda>_.
            set_size this (m_size r)))))
      else ok ())"

text \<open>\<^verbatim>\<open>Vector& operator=(Vector&& rhs) noexcept\<close>\<close>

definition Vector_move_assign :: "nat \<Rightarrow> nat \<Rightarrow> ('a, unit) action" where
  "Vector_move_assign this rhs =
     (if this \<noteq> rhs then
        andthen (get_vec this) (\<lambda>v.
        andthen (get_vec rhs) (\<lambda>r.
          if m_capacity (m_data v) < m_size r then
            (let (rhs_copy, r') = Vector_Swap Vector_default r;
                 (v', rhs_copy') = Vector_Swap v rhs_copy
             in andthen (put_vec rhs r') (\<lambda>_.
                andthen (put_vec this v') (\<lambda>_.
                Vector_dtor rhs_copy')))
          else Swap this rhs))
      else ok ())"

text \<open>
  \<^verbatim>\<open>EmplaceWithoutReallocate\<close>. In the second branch \<^verbatim>\<open>data_[size_ - 1]\<close> is evaluated;
  for \<^verbatim>\<open>size_ == 0\<close> the index wraps to \<^verbatim>\<open>SIZE_MAX\<close> and the assertion of
  \<^verbatim>\<open>operator[]\<close> fails. The temporary \<^verbatim>\<open>temp_args\<close> is destroyed when the branch ends.
\<close>

definition EmplaceWithoutReallocate :: "'a elem_type \<Rightarrow> nat \<Rightarrow> nat \<Rightarrow> 'a args \<Rightarrow> ('a, unit) action" where
  "EmplaceWithoutReallocate T this pos a =
     andthen (get_vec this) (\<lambda>v.
       let distance_to_emplace = pos in
       if pos = m_size v then construct T (end_ptr v) a
       else
         andthen (make T a) (\<lambda>temp_args.
         if m_size v = 0 then throw undefined_behaviour
         else
           andthen (RawMemory_index (m_data v) (m_size v - 1)) (\<lambda>back.
           andthen (move_construct T (end_ptr v) back) (\<lambda>_.
           andthen (move_backward T (ptr_add (begin_ptr v) distance_to_emplace)
                      (fst (end_ptr v), m_size v - 1) (end_ptr v)) (\<lambda>_.
           andthen (RawMemory_index (m_data v) distance_to_emplace) (\<lambda>p.
           andthen (log MoveAssign) (\<lambda>_.
           andthen (overwrite p temp_args) (\<lambda>_.
           log Dtor))))))))"

text \<open>
  \<^verbatim>\<open>EmplaceWithReallocate\<close>. \<^verbatim>\<open>distance_to_end\<close> is \<^verbatim>\<open>size_ - pos\<close>; for a position
  behind \<^verbatim>\<open>end()\<close> it wraps to a huge count and the relocation runs out of the block.
  \<^verbatim>\<open>new_vec\<close> is a local: its destructor releases the new block when an exception
  leaves the function, and the old block after \<^verbatim>\<open>data_.Swap(new_vec)\<close>.
\<close>

definition EmplaceWithReallocate :: "'a elem_type \<Rightarrow> nat \<Rightarrow> nat \<Rightarrow> 'a args \<Rightarrow> ('a, unit) action" where
  "EmplaceWithReallocate T this pos a =
     andthen (get_vec this) (\<lambda>v.
       if m_size v < pos then throw undefined_behaviour
       else
         let distance_to_emplace = pos;
             distance_to_end = m_size v - pos
         in
         andthen (RawMemory_ctor (if m_size v = 0 then 1 else m_size v * 2)) (\<lambda>new_vec.
         andthen
           (unwinding (RawMemory_dtor new_vec)
              (andthen (construct T (ptr_add (GetAddress new_vec) distance_to_emplace) a) (\<lambda>_.
                 if nothrow_move_constructible T \<or> \<not> copy_constructible T then
                   andthen (uninitialized_move_n T (begin_ptr v) distance_to_emplace
                              (GetAddress new_vec)) (\<lambda>_.
                   andthen (uninitialized_move_n T (ptr_add (begin_ptr v) distance_to_emplace)
                              distance_to_end
                              (ptr_add (GetAddress new_vec) (distance_to_emplace + 1))) (\<lambda>_.
                   destroy_n (begin_ptr v) (m_size v)))
                 else
                   andthen (uninitialized_copy_n T (begin_ptr v) distance_to_emplace
                              (GetAddress new_vec)) (\<lambda>_.
                   andthen (uninitialized_copy_n T (ptr_add (begin_ptr v) distance_to_emplace)
                              distance_to_end
                              (ptr_add (GetAddress new_vec) (distance_to_emplace + 1))) (\<lambda>_.
                   destroy_n (begin_ptr v) (m_size v)))))) (\<lambda>_.
           let (d', new_vec') = RawMemory_Swap (m_data v) new_vec
           in andthen (put_vec this (v\<lparr>m_data := d'\<rparr>)) (\<lambda>_. RawMemory_dtor new_vec'))))"

text \<open>\<^verbatim>\<open>Emplace\<close>; the iterator it returns is \<^verbatim>\<open>begin() + distance_to_emplace\<close>.\<close>

definition Emplace :: "'a elem_type \<Rightarrow> nat \<Rightarrow> nat \<Rightarrow> 'a args \<Rightarrow> ('a, nat) action" where
  "Emplace T this pos a =
     andthen (get_vec this) (\<lambda>v.
       let distance_to_emplace = pos;
           new_size = m_size v + 1
       in
       andthen (if m_capacity (m_data v) \<ge> new_size
                then EmplaceWithoutReallocate T this pos a
                else EmplaceWithReallocate T this pos a) (\<lambda>_.
       andthen (set_size this new_size) (\<lambda>_.
       ok distance_to_emplace)))"

text \<open>\<^verbatim>\<open>EmplaceBack\<close> returns a reference to the new element: the pointer to its slot.\<close>

definition EmplaceBack :: "'a elem_type \<Rightarrow> nat \<Rightarrow> 'a args \<Rightarrow> ('a, ptr) action" where
  "EmplaceBack T this a =
     andthen (get_vec this) (\<lambda>v.
     andthen (Emplace T this (m_size v) a) (\<lambda>emplace_back_it.
     andthen (get_vec this) (\<lambda>v'. ok (ptr_add (begin_ptr v') emplace_back_it))))"

text \<open>\<^verbatim>\<open>Insert(pos, const T&)\<close> and \<^verbatim>\<open>Insert(pos, T&&)\<close>\<close>

definition Insert :: "'a elem_type \<Rightarrow> nat \<Rightarrow> nat \<Rightarrow> 'a cref \<Rightarrow> ('a, nat) action" where
  "Insert T this pos val = Emplace T this pos (Lvalue val)"

definition Insert_rvalue :: "'a elem_type \<Rightarrow> nat \<Rightarrow> nat \<Rightarrow> 'a \<Rightarrow> ('a, nat) action" where
  "Insert_rvalue T this pos x = Emplace T this pos (Rvalue x)"

text \<open>\<^verbatim>\<open>Erase\<close>\<close>

fun erase_shift :: "'a elem_type \<Rightarrow> RawMemory \<Rightarrow> nat \<Rightarrow> nat \<Rightarrow> ('a, unit) action" where
  "erase_shift T d i 0 = ok ()"
| "erase_shift T d i (Suc n) =
     andthen (RawMemory_index d i) (\<lambda>dst.
     andthen (RawMemory_index d (i + 1)) (\<lambda>src.
     andthen (if move_assignable T then move_assign T dst src else copy_assign dst src) (\<lambda>_.
     erase_shift T d (i + 1) n)))"

definition Erase :: "'a elem_type \<Rightarrow> nat \<Rightarrow> nat \<Rightarrow> ('a, nat) action" where
  "Erase T this pos =
     andthen (get_vec this) (\<lambda>v.
       let pos_to_erase = pos in
       if m_size v = 0 then throw undefined_behaviour
       else
         let new_size = m_size v - 1 in
         andthen (erase_shift T (m_data v) pos_to_erase (new_size - pos_to_erase)) (\<lambda>_.
         andthen (destroy_at (fst (end_ptr v), m_size v - 1)) (\<lambda>_.
         andthen (set_size this new_size) (\<lambda>_.
         ok pos_to_erase))))"

text \<open>\<^verbatim>\<open>PopBack\<close>\<close>

definition PopBack :: "nat \<Rightarrow> ('a, unit) action" where
  "PopBack this =
     andthen (get_vec this) (\<lambda>v.
       if m_size v = 0 then ok ()
       else
         andthen (destroy_at (fst (GetAddress (m_data v)), m_size v - 1)) (\<lambda>_.
         set_size this (m_size v - 1)))"

text \<open>\<^verbatim>\<open>PushBack(const T&)\<close> and \<^verbatim>\<open>PushBack(T&&)\<close>: the argument pack is the value.\<close>

definition PushBack :: "'a elem_type \<Rightarrow> nat \<Rightarrow> 'a args \<Rightarrow> ('a, unit) action" where
  "PushBack T this a =
     andthen (get_vec this) (\<lambda>v.
       let new_size = m_size v + 1 in
       andthen (if m_capacity (m_data v) \<ge> new_size
                then EmplaceWithoutReallocate T this (m_size v) a
                else EmplaceWithReallocate T this (m_size v) a) (\<lambda>_.
       set_size this new_size))"

text \<open>\<^verbatim>\<open>Reserve\<close>\<close>

definition Reserve :: "'a elem_type \<Rightarrow> nat \<Rightarrow> nat \<Rightarrow> ('a, unit) action" where
  "Reserve T this new_capacity =
     andthen (get_vec this) (\<lambda>v.
       if new_capacity \<le> m_capacity (m_data v) then ok ()
       else
         andthen (RawMemory_ctor new_capacity) (\<lambda>new_raw_memory.
         andthen
           (unwinding (RawMemory_dtor new_raw_memory)
              (if nothrow_move_constructible T \<or> \<not> copy_constructible T then
                 andthen (uninitialized_move_n T (GetAddress (m_data v)) (m_size v)
                            (GetAddress new_raw_memory)) (\<lambda>_.
                 destroy_n (GetAddress (m_data v)) (m_size v))
               else
                 andthen (uninitialized_copy_n T (GetAddress (m_data v)) (m_size v)
                            (GetAddress new_raw_memory)) (\<lambda>_.
                 destroy_n (GetAddress (m_data v)) (m_size v)))) (\<lambda>_.
           let (d', new_raw_memory') = RawMemory_Swap (m_data v) new_raw_memory
           in andthen (put_vec this (v\<lparr>m_data := d'\<rparr>)) (\<lambda>_. RawMemory_dtor new_raw_memory'))))"

text \<open>
  \<^verbatim>\<open>Resize\<close>. In the second branch \<^verbatim>\<open>new_size - size_\<close> is computed without a
  comparison; were \<^verbatim>\<open>size_\<close> larger, the count would wrap and the construction would run
  out of the block.
\<close>

definition Resize :: "'a elem_type \<Rightarrow> nat \<Rightarrow> nat \<Rightarrow> ('a, unit) action" where
  "Resize T this new_size =
     andthen (get_vec this) (\<lambda>v.
       andthen
         (if m_capacity (m_data v) > new_size then
            (if m_size v > new_size then
               destroy_n (ptr_add (GetAddress (m_data v)) new_size) (m_size v - new_size)
             else
               uninitialized_value_construct_n T (ptr_add (GetAddress (m_data v)) (m_size v))
                 (new_size - m_size v))
          else
            andthen (Reserve T this new_size) (\<lambda>_.
            andthen (get_vec this) (\<lambda>v'.
              if new_size < m_size v' then throw undefined_behaviour
              else
                uninitialized_value_construct_n T (ptr_add (GetAddress (m_data v')) (m_size v'))
                  (new_size - m_size v')))) (\<lambda>_.
       set_size this new_size))"

section \<open>Observations and well-formedness\<close>

text \<open>
  What a caller can observe of the vector at \<open>this\<close>: its size, its capacity and, when
  every index below the size holds a live object, the list of its elements.
\<close>

definition size_of :: "nat \<Rightarrow> 'a machine \<Rightarrow> nat" where
  "size_of this s = (case vecs s this of None \<Rightarrow> 0 | Some v \<Rightarrow> m_size v)"

definition capacity_of :: "nat \<Rightarrow> 'a machine \<Rightarrow> nat" where
  "capacity_of this s = (case vecs s this of None \<Rightarrow> 0 | Some v \<Rightarrow> m_capacity (m_data v))"

definition live :: "'a option list \<Rightarrow> bool" where
  "live b = list_all (\<lambda>x. x \<noteq> None) b"

definition raw :: "'a option list \<Rightarrow> bool" where
  "raw b = list_all (\<lambda>x. x = None) b"

definition block_of :: "Vector \<Rightarrow> 'a machine \<Rightarrow> 'a option list" where
  "block_of v s = (case heap s (m_buffer (m_data v)) of None \<Rightarrow> [] | Some b \<Rightarrow> b)"

definition elements :: "nat \<Rightarrow> 'a machine \<Rightarrow> 'a list option" where
  "elements this s =
     (case vecs s this of
        None \<Rightarrow> None
      | Some v \<Rightarrow>
          if m_size v \<le> length (block_of v s) \<and> live (take (m_size v) (block_of v s))
          then Some (map the (take (m_size v) (block_of v s)))
          else None)"

text \<open>
  The invariant of the data model: \<open>size \<le> capacity\<close>; the vector owns a block of
  \<open>capacity\<close> slots (no block when the capacity is \<open>0\<close>); the slots below \<open>size\<close> are live
  and the others are raw.
\<close>

definition owns_block :: "Vector \<Rightarrow> 'a machine \<Rightarrow> bool" where
  "owns_block v s =
     (m_size v \<le> m_capacity (m_data v) \<and>
      (if m_capacity (m_data v) = 0 then m_buffer (m_data v) = nullptr
       else m_buffer (m_data v) \<noteq> nullptr \<and>
            (case heap s (m_buffer (m_data v)) of
               None \<Rightarrow> False
             | Some b \<Rightarrow> length b = m_capacity (m_data v) \<and>
                 live (take (m_size v) b) \<and> raw (drop (m_size v) b))))"

definition wf_vector :: "nat \<Rightarrow> 'a machine \<Rightarrow> bool" where
  "wf_vector this s = (case vecs s this of None \<Rightarrow> False | Some v \<Rightarrow> owns_block v s)"

text \<open>
  What an argument pack amounts to, read in a state: the value the constructor builds
  (\<open>None\<close> when the reference does not point to a live object), the number of
  copy-constructor invocations it makes, and the element operation it is.
\<close>

definition arg_value :: "'a args \<Rightarrow> 'a machine \<Rightarrow> 'a option" where
  "arg_value a s =
     (case a of
        Lvalue (Outside x) \<Rightarrow> Some x
      | Lvalue (Inside p) \<Rightarrow> (case peek p s of Some (Some x) \<Rightarrow> Some x | _ \<Rightarrow> None)
      | Rvalue x \<Rightarrow> Some x
      | Args x \<Rightarrow> Some x)"

definition arg_copies :: "'a args \<Rightarrow> nat" where
  "arg_copies a = (case a of Lvalue _ \<Rightarrow> 1 | _ \<Rightarrow> 0)"

definition arg_event :: "'a args \<Rightarrow> event" where
  "arg_event a = (case a of Lvalue _ \<Rightarrow> CopyCtor | Rvalue _ \<Rightarrow> MoveCtor | Args _ \<Rightarrow> ArgsCtor)"

text \<open>The operation by which the relocation policy of the source moves an element.\<close>

definition relocation_event :: "'a elem_type \<Rightarrow> event" where
  "relocation_event T =
     (if nothrow_move_constructible T \<or> \<not> copy_constructible T then MoveCtor else CopyCtor)"

text \<open>The allocator can hand out a block of \<open>n\<close> slots at a fresh address.\<close>

definition can_allocate :: "nat \<Rightarrow> 'a machine \<Rightarrow> bool" where
  "can_allocate n s = (n \<le> avail s \<and> brk s \<noteq> nullptr \<and> heap s (brk s) = None)"

text \<open>
  An instance for the scenarios: \<^verbatim>\<open>int\<close> (unbounded here), whose operations never throw and
  whose move is a copy, and a machine without objects whose allocator can hand out
  \<open>n\<close> slots.
\<close>

definition int_type :: "int elem_type" where
  "int_type = \<lparr>nothrow_move_constructible = True, copy_constructible = True,
     move_assignable = True, copy_throws = (\<lambda>_. False), moved_from = (\<lambda>x. x),
     value_init = 0\<rparr>"

definition start :: "nat \<Rightarrow> 'a machine" where
  "start n = \<lparr>heap = Map.empty, brk = 1, avail = n, vecs = Map.empty, raws = Map.empty,
     copies = 0, trace = []\<rparr>"

text \<open>A free-standing \<^verbatim>\<open>RawMemory\<close> object built by \<^verbatim>\<open>RawMemory(capacity)\<close> at \<open>this\<close>.\<close>

definition RawMemory_new :: "nat \<Rightarrow> nat \<Rightarrow> ('a, unit) action" where
  "RawMemory_new this capacity =
     andthen (RawMemory_ctor capacity) (\<lambda>m s. (Inr (), s\<lparr>raws := (raws s)(this \<mapsto> m)\<rparr>))"

text \<open>Two \<^verbatim>\<open>RawMemory\<close> objects: one of capacity 2 at address 0, one of capacity 3 at 1.\<close>

definition two_buffers :: "nat \<Rightarrow> 'a machine" where
  "two_buffers n = snd (RawMemory_new 1 3 (snd (RawMemory_new 0 2 (start n))))"

text \<open>
  The scenario of the specification: an empty \<^verbatim>\<open>Vector<int>\<close> at address 0, then
  \<^verbatim>\<open>PushBack(1)\<close>, \<^verbatim>\<open>PushBack(2)\<close>, \<^verbatim>\<open>PushBack(3)\<close>; then \<^verbatim>\<open>Insert(begin() + 1, 99)\<close>;
  then \<^verbatim>\<open>Erase(begin() + 2)\<close>; then \<^verbatim>\<open>PopBack()\<close>.
\<close>

definition pushed :: "int machine" where
  "pushed =
     snd (PushBack int_type 0 (Rvalue 3)
       (snd (PushBack int_type 0 (Rvalue 2)
         (snd (PushBack int_type 0 (Rvalue 1)
           (snd (Vector_new 0 (start 64))))))))"

definition inserted :: "int machine" where
  "inserted = snd (Insert_rvalue int_type 0 1 99 pushed)"

definition erased :: "int machine" where
  "erased = snd (Erase int_type 0 2 inserted)"

definition popped :: "int machine" where
  "popped = snd (PopBack 0 erased)"

section \<open>Sequences of public operations\<close>

text \<open>
  A call of a public operation names the vector it acts on. \<open>run\<close> performs a list of
  calls the way a caller does that catches the exceptions of each call and goes on;
  it stops when the program has left defined behaviour.
\<close>

datatype 'a call =
    Call_PushBack nat "'a args"
  | Call_Insert nat nat "'a cref"
  | Call_Insert_rvalue nat nat 'a
  | Call_Emplace nat nat "'a args"
  | Call_EmplaceBack nat "'a args"
  | Call_Erase nat nat
  | Call_PopBack nat
  | Call_Resize nat nat
  | Call_Reserve nat nat
  | Call_copy_assign nat nat
  | Call_move_assign nat nat
  | Call_Swap nat nat

definition discard :: "('a, 'r) action \<Rightarrow> ('a, unit) action" where
  "discard m = andthen m (\<lambda>_. ok ())"

fun exec :: "'a elem_type \<Rightarrow> 'a call \<Rightarrow> ('a, unit) action" where
  "exec T (Call_PushBack this a) = PushBack T this a"
| "exec T (Call_Insert this pos r) = discard (Insert T this pos r)"
| "exec T (Call_Insert_rvalue this pos x) = discard (Insert_rvalue T this pos x)"
| "exec T (Call_Emplace this pos a) = discard (Emplace T this pos a)"
| "exec T (Call_EmplaceBack this a) = discard (EmplaceBack T this a)"
| "exec T (Call_Erase this pos) = discard (Erase T this pos)"
| "exec T (Call_PopBack this) = PopBack this"
| "exec T (Call_Resize this n) = Resize T this n"
| "exec T (Call_Reserve this n) = Reserve T this n"
| "exec T (Call_copy_assign this rhs) = Vector_copy_assign T this rhs"
| "exec T (Call_move_assign this rhs) = Vector_move_assign this rhs"
| "exec T (Call_Swap this other) = Swap this other"

fun run :: "'a elem_type \<Rightarrow> 'a call list \<Rightarrow> ('a, unit) action" where
  "run T [] = ok ()"
| "run T (c # cs) =
     (\<lambda>s. case exec T c s of
            (Inl undefined_behaviour, s') \<Rightarrow> (Inl undefined_behaviour, s')
          | (_, s') \<Rightarrow> run T cs s')"

fun exchanges :: "'a call \<Rightarrow> bool" where
  "exchanges (Call_move_assign this rhs) = True"
| "exchanges (Call_Swap this other) = True"
| "exchanges _ = False"

text \<open>
  Two vectors for the scenarios on pairs: the one at address 0 is empty with capacity 4
  (\<^verbatim>\<open>Reserve(4)\<close>), the one at address 1 holds [7] with capacity 1; and two vectors
  holding [7] and [1].
\<close>

definition two_vectors :: "int machine" where
  "two_vectors =
     snd (PushBack int_type 1 (Rvalue 7)
       (snd (Vector_new 1
         (snd (Reserve int_type 0 4
           (snd (Vector_new 0 (start 64))))))))"

definition two_singletons :: "int machine" where
  "two_singletons =
     snd (PushBack int_type 1 (Rvalue 1)
       (snd (Vector_new 1
         (snd (PushBack int_type 0 (Rvalue 7)
           (snd (Vector_new 0 (start 64))))))))"

section \<open>Predicates used in the proofs\<close>

text \<open>
  \<open>keeps_vecs m\<close>: the action \<open>m\<close> changes no \<^verbatim>\<open>Vector\<close> object (it works on the heap
  only). \<open>cap_le s s'\<close>: no vector has a smaller capacity in \<open>s'\<close> than in \<open>s\<close>.
\<close>

definition keeps_vecs :: "('a, 'r) action \<Rightarrow> bool" where
  "keeps_vecs m = (\<forall>s. vecs (snd (m s)) = vecs s)"

definition cap_le :: "'a machine \<Rightarrow> 'a machine \<Rightarrow> bool" where
  "cap_le s s' = (\<forall>t. capacity_of t s \<le> capacity_of t s')"

definition grows :: "('a, 'r) action \<Rightarrow> bool" where
  "grows m = (\<forall>s. cap_le s (snd (m s)))"

section \<open>Properties\<close>

subsection \<open>Actions and slots\<close>

lemma andthen_Inr: "m s = (Inr x, s') \<Longrightarrow> andthen m f s = f x s'"
  by (simp add: andthen_def)

lemma andthen_Inl: "m s = (Inl e, s') \<Longrightarrow> andthen m f s = (Inl e, s')"
  by (simp add: andthen_def)

lemma andthen_ok [simp]: "andthen (ok x) f = f x"
  by (rule ext) (simp add: andthen_def ok_def)

lemma andthen_throw [simp]: "andthen (throw e) f = throw e"
  by (rule ext) (simp add: andthen_def throw_def)

lemma unwinding_Inr: "m s = (Inr x, s') \<Longrightarrow> unwinding d m s = (Inr x, s')"
  by (simp add: unwinding_def)

lemma load_live:
  "heap s a = Some b \<Longrightarrow> i < length b \<Longrightarrow> b ! i = Some x \<Longrightarrow> load (a, i) s = (Inr x, s)"
  by (simp add: load_def peek_def)

lemma overwrite_live:
  "heap s a = Some b \<Longrightarrow> i < length b \<Longrightarrow> b ! i = Some y \<Longrightarrow>
   overwrite (a, i) x s = (Inr (), s\<lparr>heap := (heap s)(a \<mapsto> b[i := Some x])\<rparr>)"
  by (simp add: overwrite_def peek_def poke_def)

lemma construct_at_raw:
  "heap s a = Some b \<Longrightarrow> i < length b \<Longrightarrow> b ! i = None \<Longrightarrow>
   construct_at (a, i) x s = (Inr (), s\<lparr>heap := (heap s)(a \<mapsto> b[i := Some x])\<rparr>)"
  by (simp add: construct_at_def peek_def poke_def)

lemma destroy_at_live:
  "heap s a = Some b \<Longrightarrow> i < length b \<Longrightarrow> b ! i = Some y \<Longrightarrow>
   destroy_at (a, i) s =
     (Inr (), s\<lparr>heap := (heap s)(a \<mapsto> b[i := None]), trace := trace s @ [Dtor]\<rparr>)"
  by (simp add: destroy_at_def peek_def poke_def log_def)

lemma live_nth: "live b \<Longrightarrow> i < length b \<Longrightarrow> \<exists>x. b ! i = Some x"
  by (auto simp: live_def list_all_length)

lemma raw_nth: "raw b \<Longrightarrow> i < length b \<Longrightarrow> b ! i = None"
  by (auto simp: raw_def list_all_length)

lemma list_all_range:
  "list_all P (take n (drop i b)) \<longleftrightarrow>
   (\<forall>j. i \<le> j \<and> j < i + n \<and> j < length b \<longrightarrow> P (b ! j))"
proof
  assume l: "list_all P (take n (drop i b))"
  show "\<forall>j. i \<le> j \<and> j < i + n \<and> j < length b \<longrightarrow> P (b ! j)"
  proof (intro allI impI, elim conjE)
    fix j assume j: "i \<le> j" "j < i + n" "j < length b"
    then have "j - i < length b - i" "j - i < n" by arith+
    then have "j - i < length (take n (drop i b))" by simp
    with l have "P (take n (drop i b) ! (j - i))"
      unfolding list_all_length by blast
    with j show "P (b ! j)" by simp
  qed
next
  assume r: "\<forall>j. i \<le> j \<and> j < i + n \<and> j < length b \<longrightarrow> P (b ! j)"
  show "list_all P (take n (drop i b))"
    unfolding list_all_length
  proof (intro allI impI)
    fix k assume "k < length (take n (drop i b))"
    then have k: "k < n" "i + k < length b" by auto
    with r have "P (b ! (i + k))" by simp
    with k show "P (take n (drop i b) ! k)" by simp
  qed
qed

lemma live_range:
  "live (take n (drop i b)) \<longleftrightarrow>
   (\<forall>j. i \<le> j \<and> j < i + n \<and> j < length b \<longrightarrow> b ! j \<noteq> None)"
  unfolding live_def by (rule list_all_range)

lemma raw_range:
  "raw (take n (drop i b)) \<longleftrightarrow>
   (\<forall>j. i \<le> j \<and> j < i + n \<and> j < length b \<longrightarrow> b ! j = None)"
  unfolding raw_def by (rule list_all_range)

lemma destroy_n_block:
  "heap s a = Some b \<Longrightarrow> i + n \<le> length b \<Longrightarrow> live (take n (drop i b)) \<Longrightarrow>
   destroy_n (a, i) n s =
     (Inr (), s\<lparr>heap := (heap s)(a \<mapsto> take i b @ replicate n None @ drop (i + n) b),
               trace := trace s @ replicate n Dtor\<rparr>)"
proof (induction n arbitrary: s b i)
  case 0
  then show ?case by (simp add: ok_def map_upd_triv)
next
  case (Suc n)
  from Suc.prems have i: "i < length b" by simp
  from Suc.prems(3) i obtain y where y: "b ! i = Some y"
    unfolding live_range by fastforce
  let ?s1 = "s\<lparr>heap := (heap s)(a \<mapsto> b[i := None]), trace := trace s @ [Dtor]\<rparr>"
  have d: "destroy_at (a, i) s = (Inr (), ?s1)"
    using destroy_at_live[OF Suc.prems(1) i y] .
  have l: "live (take n (drop (Suc i) (b[i := None])))"
    using Suc.prems(3) unfolding live_range by (auto simp: nth_list_update)
  have e: "take (Suc i) (b[i := None]) @ replicate n None @ drop (Suc i + n) (b[i := None])
     = take i b @ replicate (Suc n) None @ drop (i + Suc n) b"
    using i by (simp add: take_Suc_conv_app_nth)
  have "destroy_n (a, i) (Suc n) s = destroy_n (a, Suc i) n ?s1"
    using d by (simp add: andthen_def ptr_add_def)
  also have "\<dots> =
     (Inr (), ?s1\<lparr>heap := (heap ?s1)(a \<mapsto> take (Suc i) (b[i := None]) @ replicate n None @ drop (Suc i + n) (b[i := None])),
               trace := trace ?s1 @ replicate n Dtor\<rparr>)"
    using Suc.prems(2) l by (intro Suc.IH) auto
  also have "\<dots> = (Inr (), s\<lparr>heap := (heap s)(a \<mapsto> take i b @ replicate (Suc n) None @ drop (i + Suc n) b),
               trace := trace s @ replicate (Suc n) Dtor\<rparr>)"
    unfolding e by (simp add: replicate_append_same)
  finally show ?case .
qed

lemma raw_replicate: "raw b \<Longrightarrow> b = replicate (length b) None"
  by (rule nth_equalityI) (auto simp: raw_def list_all_length)

lemma set_size_eq:
  "vecs s this = Some v \<Longrightarrow>
   set_size this n s = (Inr (), s\<lparr>vecs := (vecs s)(this \<mapsto> v\<lparr>m_size := n\<rparr>)\<rparr>)"
  by (simp add: set_size_def andthen_def get_vec_def put_vec_def)

lemma get_vec_eq: "vecs s this = Some v \<Longrightarrow> get_vec this s = (Inr v, s)"
  by (simp add: get_vec_def)

lemma Resize_zero_state:
  assumes v: "vecs s this = Some v" and wf: "wf_vector this s" and pos: "0 < m_size v"
  shows "Resize T this 0 s =
     (Inr (), s\<lparr>heap := (heap s)(m_buffer (m_data v) \<mapsto> replicate (m_capacity (m_data v)) None),
               trace := trace s @ replicate (m_size v) Dtor,
               vecs := (vecs s)(this \<mapsto> v\<lparr>m_size := 0\<rparr>)\<rparr>)"
proof -
  from wf v pos obtain b where b: "heap s (m_buffer (m_data v)) = Some b"
    "length b = m_capacity (m_data v)" "m_size v \<le> length b"
    "live (take (m_size v) b)" "raw (drop (m_size v) b)"
    by (auto simp: wf_vector_def owns_block_def split: option.splits if_splits)
  let ?a = "m_buffer (m_data v)"
  let ?s1 = "s\<lparr>heap := (heap s)(?a \<mapsto> take 0 b @ replicate (m_size v) None @ drop (0 + m_size v) b),
               trace := trace s @ replicate (m_size v) Dtor\<rparr>"
  have d: "destroy_n (?a, 0) (m_size v) s = (Inr (), ?s1)"
    using b by (intro destroy_n_block) auto
  have "drop (m_size v) b = replicate (length b - m_size v) None"
    using raw_replicate[OF b(5)] by simp
  then have e: "take 0 b @ replicate (m_size v) None @ drop (0 + m_size v) b
     = replicate (m_capacity (m_data v)) None"
    using b(2,3) by (simp flip: replicate_add)
  have "Resize T this 0 s = set_size this 0 ?s1"
    using v pos b(2,3) d
    by (simp add: Resize_def andthen_def get_vec_eq GetAddress_def ptr_add_def)
  also have "\<dots> = (Inr (), ?s1\<lparr>vecs := (vecs ?s1)(this \<mapsto> v\<lparr>m_size := 0\<rparr>)\<rparr>)"
    using v by (intro set_size_eq) simp
  finally show ?thesis unfolding e by simp
qed

subsection \<open>Which actions change a vector object\<close>

lemma keeps_vecsD: "keeps_vecs m \<Longrightarrow> m s = (r, s') \<Longrightarrow> vecs s' = vecs s"
  by (auto simp: keeps_vecs_def dest: spec[where x = s])

lemma keeps_vecs_ok [simp]: "keeps_vecs (ok x)"
  by (simp add: keeps_vecs_def ok_def)

lemma keeps_vecs_throw [simp]: "keeps_vecs (throw e)"
  by (simp add: keeps_vecs_def throw_def)

lemma keeps_vecs_andthen:
  "keeps_vecs m \<Longrightarrow> (\<And>x. keeps_vecs (f x)) \<Longrightarrow> keeps_vecs (andthen m f)"
  unfolding keeps_vecs_def andthen_def
  by (auto split: prod.splits sum.splits) (metis snd_conv)+

lemma keeps_vecs_unwinding:
  "keeps_vecs d \<Longrightarrow> keeps_vecs m \<Longrightarrow> keeps_vecs (unwinding d m)"
  unfolding keeps_vecs_def unwinding_def
  by (auto split: prod.splits sum.splits error.splits) (metis snd_conv)+

lemma keeps_vecs_if:
  "(c \<Longrightarrow> keeps_vecs m) \<Longrightarrow> (\<not> c \<Longrightarrow> keeps_vecs n) \<Longrightarrow> keeps_vecs (if c then m else n)"
  by simp

lemma keeps_vecs_prims [simp]:
  "keeps_vecs (log e)" "keeps_vecs (load p)" "keeps_vecs (construct_at p x)"
  "keeps_vecs (overwrite p x)" "keeps_vecs (destroy_at p)" "keeps_vecs (Allocate n)"
  "keeps_vecs (Deallocate a)" "keeps_vecs (get_vec this)"
  by (auto simp: keeps_vecs_def log_def load_def construct_at_def overwrite_def destroy_at_def
      poke_def Allocate_def Deallocate_def get_vec_def split: option.splits)

lemma keeps_vecs_deref [simp]: "keeps_vecs (deref r)"
  by (cases r) (simp_all add: deref_def)

lemma keeps_vecs_copy_ctor [simp]: "keeps_vecs (copy_ctor T r)"
  unfolding copy_ctor_def
  by (rule keeps_vecs_andthen, simp, simp add: keeps_vecs_def)

lemma keeps_vecs_make [simp]: "keeps_vecs (make T a)"
  by (cases a) (simp_all add: make_def keeps_vecs_andthen)

lemma keeps_vecs_elem [simp]:
  "keeps_vecs (construct T p a)" "keeps_vecs (copy_construct T p q)"
  "keeps_vecs (move_construct T p q)" "keeps_vecs (move_assign T p q)"
  "keeps_vecs (copy_assign p q)" "keeps_vecs (value_construct T p)"
  by (simp_all add: construct_def copy_construct_def move_construct_def move_assign_def
      copy_assign_def value_construct_def keeps_vecs_andthen)

lemma keeps_vecs_loops [simp]:
  "keeps_vecs (uninitialized_copy_n T p n q)"
  "keeps_vecs (uninitialized_move_n T p n q)"
  "keeps_vecs (uninitialized_value_construct_n T p n)"
  "keeps_vecs (destroy_n p n)"
  "keeps_vecs (copy_n p n q)"
  "keeps_vecs (move_backward_n T p n q)"
proof -
  show "keeps_vecs (uninitialized_copy_n T p n q)"
    by (induction n arbitrary: p q) (simp_all add: keeps_vecs_andthen keeps_vecs_unwinding)
  show "keeps_vecs (uninitialized_move_n T p n q)"
    by (induction n arbitrary: p q) (simp_all add: keeps_vecs_andthen)
  show "keeps_vecs (uninitialized_value_construct_n T p n)"
    by (induction n arbitrary: p) (simp_all add: keeps_vecs_andthen)
  show "keeps_vecs (destroy_n p n)"
    by (induction n arbitrary: p) (simp_all add: keeps_vecs_andthen)
  show "keeps_vecs (copy_n p n q)"
    by (induction n arbitrary: p q) (simp_all add: keeps_vecs_andthen)
  show "keeps_vecs (move_backward_n T p n q)"
    by (induction n) (simp_all add: keeps_vecs_andthen)
qed

lemma keeps_vecs_move_backward [simp]: "keeps_vecs (move_backward T p q r)"
  by (simp add: move_backward_def)

lemma keeps_vecs_RawMemory [simp]:
  "keeps_vecs (RawMemory_ctor n)" "keeps_vecs (RawMemory_dtor m)"
  "keeps_vecs (RawMemory_plus m k)" "keeps_vecs (RawMemory_index m k)"
  by (simp_all add: RawMemory_ctor_def RawMemory_dtor_def RawMemory_plus_def
      RawMemory_index_def keeps_vecs_andthen)

lemma keeps_vecs_erase_shift [simp]: "keeps_vecs (erase_shift T d i n)"
  by (induction n arbitrary: i) (simp_all add: keeps_vecs_andthen)

lemma keeps_vecs_Vector [simp]:
  "keeps_vecs (Vector_dtor v)" "keeps_vecs (Vector_copy T v)"
  by (simp_all add: Vector_dtor_def Vector_copy_def keeps_vecs_andthen keeps_vecs_unwinding)

lemma keeps_vecs_EmplaceWithoutReallocate [simp]:
  "keeps_vecs (EmplaceWithoutReallocate T this pos a)"
  by (simp add: EmplaceWithoutReallocate_def Let_def keeps_vecs_andthen)

subsection \<open>Capacity along a call\<close>

lemma cap_le_refl [simp]: "cap_le s s"
  by (simp add: cap_le_def)

lemma cap_le_trans: "cap_le s s1 \<Longrightarrow> cap_le s1 s2 \<Longrightarrow> cap_le s s2"
  unfolding cap_le_def by (meson le_trans)

lemma cap_le_vecs: "vecs s' = vecs s \<Longrightarrow> cap_le s s'"
  by (simp add: cap_le_def capacity_of_def)

lemma cap_le_put:
  "vecs s this = Some v \<Longrightarrow> vecs s1 = vecs s \<Longrightarrow>
   m_capacity (m_data v) \<le> m_capacity (m_data v') \<Longrightarrow>
   vecs s2 = (vecs s1)(this \<mapsto> v') \<Longrightarrow> cap_le s s2"
  by (simp add: cap_le_def capacity_of_def)

lemma growsD: "grows m \<Longrightarrow> m s = (r, s') \<Longrightarrow> cap_le s s'"
  by (auto simp: grows_def dest: spec[where x = s])

lemma grows_keeps: "keeps_vecs m \<Longrightarrow> grows m"
  by (simp add: grows_def keeps_vecs_def cap_le_vecs)

lemma grows_andthen: "grows m \<Longrightarrow> (\<And>x. grows (f x)) \<Longrightarrow> grows (andthen m f)"
  unfolding grows_def andthen_def
  by (auto split: prod.splits sum.splits) (metis cap_le_trans snd_conv)+

lemma grows_set_size [simp]: "grows (set_size this n)"
  unfolding grows_def set_size_def andthen_def get_vec_def put_vec_def
  by (auto simp: cap_le_def capacity_of_def split: option.splits)

lemma grows_ok [simp]: "grows (ok x)"
  by (simp add: grows_keeps)

lemma grows_throw [simp]: "grows (throw x)"
  by (simp add: grows_keeps)

text \<open>Installing a block that is at least as large.\<close>

lemma cap_le_install:
  assumes v: "vecs s this = Some v"
    and A: "keeps_vecs A" and B: "\<And>x. keeps_vecs (B x)" and D: "\<And>x. keeps_vecs (D x)"
    and g: "\<And>x s1. A s = (Inr x, s1) \<Longrightarrow> m_capacity (m_data v) \<le> m_capacity (m_data (g x))"
  shows "cap_le s (snd (andthen A (\<lambda>x. andthen (B x) (\<lambda>_. andthen (put_vec this (g x)) (\<lambda>_. D x))) s))"
proof (cases "A s")
  case (Pair r s1)
  have s1: "vecs s1 = vecs s" using keeps_vecsD[OF A Pair] .
  show ?thesis
  proof (cases r)
    case (Inl e)
    with Pair s1 show ?thesis by (simp add: andthen_def cap_le_vecs)
  next
    case (Inr x)
    obtain r2 s2 where B2: "B x s1 = (r2, s2)" by (cases "B x s1")
    have s2: "vecs s2 = vecs s" using keeps_vecsD[OF B B2] s1 by simp
    show ?thesis
    proof (cases r2)
      case (Inl e)
      with Pair Inr B2 s2 show ?thesis by (simp add: andthen_def cap_le_vecs)
    next
      case Inr2: (Inr u)
      let ?s3 = "s2\<lparr>vecs := (vecs s2)(this \<mapsto> g x)\<rparr>"
      obtain r4 s4 where D4: "D x ?s3 = (r4, s4)" by (cases "D x ?s3")
      have s4: "vecs s4 = (vecs s2)(this \<mapsto> g x)" using keeps_vecsD[OF D D4] by simp
      have "cap_le s s4"
        using v s2 g[OF Pair[unfolded Inr]] s4 by (rule cap_le_put)
      with Pair Inr B2 Inr2 D4 show ?thesis
        by (simp add: andthen_def put_vec_def)
    qed
  qed
qed

lemma RawMemory_ctor_capacity:
  "RawMemory_ctor n s = (Inr m, s') \<Longrightarrow> m_capacity m = n"
  by (auto simp: RawMemory_ctor_def andthen_def ok_def split: prod.splits sum.splits)

lemma cap_le_Reserve: "cap_le s (snd (Reserve T this n s))"
proof (cases "vecs s this")
  case None
  then show ?thesis by (simp add: Reserve_def andthen_def get_vec_def)
next
  case (Some v)
  show ?thesis
  proof (cases "n \<le> m_capacity (m_data v)")
    case True
    with Some show ?thesis by (simp add: Reserve_def andthen_def get_vec_def ok_def)
  next
    case False
    have "cap_le s (snd (andthen (RawMemory_ctor n)
        (\<lambda>x. andthen (unwinding (RawMemory_dtor x)
              (if nothrow_move_constructible T \<or> \<not> copy_constructible T then
                 andthen (uninitialized_move_n T (GetAddress (m_data v)) (m_size v)
                            (GetAddress x)) (\<lambda>_.
                 destroy_n (GetAddress (m_data v)) (m_size v))
               else
                 andthen (uninitialized_copy_n T (GetAddress (m_data v)) (m_size v)
                            (GetAddress x)) (\<lambda>_.
                 destroy_n (GetAddress (m_data v)) (m_size v))))
           (\<lambda>_. andthen (put_vec this (v\<lparr>m_data := fst (RawMemory_Swap (m_data v) x)\<rparr>))
              (\<lambda>_. RawMemory_dtor (snd (RawMemory_Swap (m_data v) x))))) s))"
      using Some False
      by (intro cap_le_install)
         (auto simp: keeps_vecs_andthen keeps_vecs_unwinding RawMemory_Swap_def
               dest: RawMemory_ctor_capacity)
    with Some False show ?thesis
      by (simp add: Reserve_def andthen_def get_vec_def split_beta)
  qed
qed

lemma cap_le_EmplaceWithReallocate:
  assumes v: "vecs s this = Some v" and c: "m_capacity (m_data v) \<le> m_size v"
  shows "cap_le s (snd (EmplaceWithReallocate T this pos a s))"
proof (cases "m_size v < pos")
  case True
  with v show ?thesis
    by (simp add: EmplaceWithReallocate_def andthen_def get_vec_def throw_def)
next
  case False
  let ?n = "if m_size v = 0 then 1 else m_size v * 2"
  have "cap_le s (snd (andthen (RawMemory_ctor ?n)
      (\<lambda>x. andthen (unwinding (RawMemory_dtor x)
              (andthen (construct T (ptr_add (GetAddress x) pos) a) (\<lambda>_.
                 if nothrow_move_constructible T \<or> \<not> copy_constructible T then
                   andthen (uninitialized_move_n T (begin_ptr v) pos (GetAddress x)) (\<lambda>_.
                   andthen (uninitialized_move_n T (ptr_add (begin_ptr v) pos) (m_size v - pos)
                              (ptr_add (GetAddress x) (pos + 1))) (\<lambda>_.
                   destroy_n (begin_ptr v) (m_size v)))
                 else
                   andthen (uninitialized_copy_n T (begin_ptr v) pos (GetAddress x)) (\<lambda>_.
                   andthen (uninitialized_copy_n T (ptr_add (begin_ptr v) pos) (m_size v - pos)
                              (ptr_add (GetAddress x) (pos + 1))) (\<lambda>_.
                   destroy_n (begin_ptr v) (m_size v))))))
         (\<lambda>_. andthen (put_vec this (v\<lparr>m_data := fst (RawMemory_Swap (m_data v) x)\<rparr>))
            (\<lambda>_. RawMemory_dtor (snd (RawMemory_Swap (m_data v) x))))) s))"
    using v c
    by (intro cap_le_install)
       (auto simp: keeps_vecs_andthen keeps_vecs_unwinding RawMemory_Swap_def
             dest!: RawMemory_ctor_capacity)
  with v False show ?thesis
    by (simp add: EmplaceWithReallocate_def andthen_def get_vec_def split_beta Let_def)
qed

lemma cap_le_emplace_choice:
  assumes v: "vecs s this = Some v"
  shows "cap_le s (snd ((if m_capacity (m_data v) \<ge> m_size v + 1
                then EmplaceWithoutReallocate T this pos a
                else EmplaceWithReallocate T this pos a) s))"
proof (cases "m_capacity (m_data v) \<ge> m_size v + 1")
  case True
  then show ?thesis
    using growsD[OF grows_keeps[OF keeps_vecs_EmplaceWithoutReallocate]]
    by (metis prod.collapse)
next
  case False
  then show ?thesis using cap_le_EmplaceWithReallocate[OF v] by simp
qed

lemma cap_le_andthen:
  "cap_le s (snd (m s)) \<Longrightarrow> (\<And>x. grows (f x)) \<Longrightarrow> cap_le s (snd (andthen m f s))"
  unfolding andthen_def grows_def
  by (auto split: prod.splits sum.splits intro: cap_le_trans)

lemma cap_le_Emplace: "cap_le s (snd (Emplace T this pos a s))"
proof (cases "vecs s this")
  case None
  then show ?thesis by (simp add: Emplace_def andthen_def get_vec_def)
next
  case (Some v)
  have "cap_le s (snd (andthen (if m_capacity (m_data v) \<ge> m_size v + 1
                then EmplaceWithoutReallocate T this pos a
                else EmplaceWithReallocate T this pos a)
              (\<lambda>_. andthen (set_size this (m_size v + 1)) (\<lambda>_. ok pos)) s))"
    by (intro cap_le_andthen cap_le_emplace_choice[OF Some] grows_andthen) simp_all
  with Some show ?thesis
    by (simp add: Emplace_def get_vec_eq andthen_Inr Let_def)
qed

lemma cap_le_PushBack: "cap_le s (snd (PushBack T this a s))"
proof (cases "vecs s this")
  case None
  then show ?thesis by (simp add: PushBack_def andthen_def get_vec_def)
next
  case (Some v)
  have "cap_le s (snd (andthen (if m_capacity (m_data v) \<ge> m_size v + 1
                then EmplaceWithoutReallocate T this (m_size v) a
                else EmplaceWithReallocate T this (m_size v) a)
              (\<lambda>_. set_size this (m_size v + 1)) s))"
    by (intro cap_le_andthen cap_le_emplace_choice[OF Some]) simp_all
  with Some show ?thesis
    by (simp add: PushBack_def get_vec_eq andthen_Inr Let_def)
qed

lemma grows_Emplace [simp]: "grows (Emplace T this pos a)"
  by (simp add: grows_def cap_le_Emplace)

lemma grows_EmplaceBack: "grows (EmplaceBack T this a)"
  by (simp add: EmplaceBack_def grows_andthen grows_keeps keeps_vecs_andthen)

lemma grows_Erase: "grows (Erase T this pos)"
  by (simp add: Erase_def Let_def grows_andthen grows_keeps keeps_vecs_andthen)

lemma grows_PopBack: "grows (PopBack this)"
  by (simp add: PopBack_def grows_andthen grows_keeps keeps_vecs_andthen)

lemma grows_Reserve [simp]: "grows (Reserve T this n)"
  by (simp add: grows_def cap_le_Reserve)

lemma grows_Resize: "grows (Resize T this n)"
  by (simp add: Resize_def grows_andthen grows_keeps keeps_vecs_andthen)

lemma cap_le_install_direct:
  assumes v: "vecs s this = Some v"
    and A: "keeps_vecs A" and D: "\<And>x. keeps_vecs (D x)"
    and g: "\<And>x s1. A s = (Inr x, s1) \<Longrightarrow> m_capacity (m_data v) \<le> m_capacity (m_data (g x))"
  shows "cap_le s (snd (andthen A (\<lambda>x. andthen (put_vec this (g x)) (\<lambda>_. D x)) s))"
  using cap_le_install[OF v A _ D g, of "\<lambda>_. ok ()"] by simp

lemma Vector_copy_capacity:
  "Vector_copy T r s = (Inr x, s') \<Longrightarrow> m_capacity (m_data x) = m_size r"
  by (auto simp: Vector_copy_def andthen_def ok_def
      split: prod.splits sum.splits dest: RawMemory_ctor_capacity)

lemma cap_le_Vector_copy_assign: "cap_le s (snd (Vector_copy_assign T this rhs s))"
proof (cases "this = rhs")
  case True
  then show ?thesis by (simp add: Vector_copy_assign_def ok_def)
next
  case ne: False
  show ?thesis
  proof (cases "vecs s this")
    case None
    with ne show ?thesis by (simp add: Vector_copy_assign_def andthen_def get_vec_def)
  next
    case v: (Some v)
    show ?thesis
    proof (cases "vecs s rhs")
      case None
      with ne v show ?thesis by (simp add: Vector_copy_assign_def andthen_def get_vec_def)
    next
      case r: (Some r)
      show ?thesis
      proof (cases "m_capacity (m_data v) < m_size r")
        case True
        have "cap_le s (snd (andthen (Vector_copy T r)
           (\<lambda>x. andthen (put_vec this (fst (Vector_Swap v x)))
                  (\<lambda>_. Vector_dtor (snd (Vector_Swap v x)))) s))"
          using v True
          by (intro cap_le_install_direct)
             (auto simp: Vector_Swap_def RawMemory_Swap_def dest!: Vector_copy_capacity)
        with ne v r True show ?thesis
          by (simp add: Vector_copy_assign_def get_vec_eq andthen_Inr split_beta)
      next
        case False
        have "grows (andthen
              (if m_size v > m_size r then
                 andthen (RawMemory_plus (m_data v) (m_size r)) (\<lambda>p.
                   destroy_n p (m_size v - m_size r))
               else
                 andthen (RawMemory_plus (m_data r) (m_size v)) (\<lambda>p.
                   uninitialized_copy_n T p (m_size r - m_size v)
                     (ptr_add (GetAddress (m_data v)) (m_size v)))) (\<lambda>_.
            andthen (copy_n (GetAddress (m_data r)) (min (m_size r) (m_size v))
                       (GetAddress (m_data v))) (\<lambda>_.
            set_size this (m_size r))))"
          by (simp add: grows_andthen grows_keeps keeps_vecs_andthen)
        with ne v r False show ?thesis
          by (simp add: Vector_copy_assign_def get_vec_eq andthen_Inr grows_def)
      qed
    qed
  qed
qed

lemma grows_snd: "grows m \<Longrightarrow> cap_le s (snd (m s))"
  by (simp add: grows_def)

lemma cap_le_discard: "cap_le s (snd (m s)) \<Longrightarrow> cap_le s (snd (discard m s))"
  by (auto simp: discard_def andthen_def ok_def split: prod.splits sum.splits)

lemma cap_le_exec: "\<not> exchanges c \<Longrightarrow> cap_le s (snd (exec T c s))"
proof (cases c)
  case (Call_PushBack this a)
  then show ?thesis by (simp add: cap_le_PushBack)
next
  case (Call_Insert this pos r)
  then show ?thesis by (simp add: cap_le_discard Insert_def cap_le_Emplace)
next
  case (Call_Insert_rvalue this pos x)
  then show ?thesis by (simp add: cap_le_discard Insert_rvalue_def cap_le_Emplace)
next
  case (Call_Emplace this pos a)
  then show ?thesis by (simp add: cap_le_discard cap_le_Emplace)
next
  case (Call_EmplaceBack this a)
  then show ?thesis by (simp add: cap_le_discard grows_snd grows_EmplaceBack)
next
  case (Call_Erase this pos)
  then show ?thesis by (simp add: cap_le_discard grows_snd grows_Erase)
next
  case (Call_PopBack this)
  then show ?thesis by (simp add: grows_snd grows_PopBack)
next
  case (Call_Resize this n)
  then show ?thesis by (simp add: grows_snd grows_Resize)
next
  case (Call_Reserve this n)
  then show ?thesis by (simp add: cap_le_Reserve)
next
  case (Call_copy_assign this rhs)
  then show ?thesis by (simp add: cap_le_Vector_copy_assign)
qed simp_all

lemma cap_le_run: "\<forall>c \<in> set cs. \<not> exchanges c \<Longrightarrow> cap_le s (snd (run T cs s))"
proof (induction cs arbitrary: s)
  case Nil
  then show ?case by (simp add: ok_def)
next
  case (Cons c cs)
  obtain r s1 where e: "exec T c s = (r, s1)" by (cases "exec T c s")
  have 1: "cap_le s s1" using cap_le_exec[of c s T] Cons.prems e by simp
  have 2: "cap_le s1 (snd (run T cs s1))" using Cons by simp
  show ?case
    using e 1 cap_le_trans[OF 1 2]
    by (auto split: sum.splits error.splits)
qed

subsection \<open>Moving a vector\<close>

lemma Vector_Swap_default:
  "Vector_Swap Vector_default r = (r, Vector_default)"
  by (simp add: Vector_Swap_def RawMemory_Swap_def Vector_default_def RawMemory_default_def)

lemma Vector_Swap_eq: "Vector_Swap v r = (r, v)"
  by (simp add: Vector_Swap_def RawMemory_Swap_def)

lemma Vector_move_ctor_state:
  assumes "vecs s rhs = Some r" "this \<noteq> rhs"
  shows "Vector_move_ctor this rhs s
     = (Inr (), s\<lparr>vecs := (vecs s)(rhs \<mapsto> Vector_default, this \<mapsto> r)\<rparr>)"
  using assms
  by (simp add: Vector_move_ctor_def Vector_new_def Swap_def put_vec_def get_vec_def
      andthen_def Vector_Swap_default fun_upd_twist)

lemma Swap_state:
  assumes "vecs s this = Some v" "vecs s rhs = Some r"
  shows "Swap this rhs s = (Inr (), s\<lparr>vecs := (vecs s)(rhs \<mapsto> v, this \<mapsto> r)\<rparr>)"
  using assms
  by (simp add: Swap_def put_vec_def get_vec_def andthen_def Vector_Swap_eq)

lemma Deallocate_block:
  "heap s a = Some b \<Longrightarrow> a \<noteq> nullptr \<Longrightarrow>
   Deallocate a s = (Inr (), s\<lparr>heap := (heap s)(a := None), avail := avail s + length b\<rparr>)"
  by (simp add: Deallocate_def)

lemma Vector_dtor_owned:
  assumes "owns_block v s"
  shows "fst (Vector_dtor v s) = Inr () \<and> vecs (snd (Vector_dtor v s)) = vecs s \<and>
         (\<forall>a. a \<noteq> m_buffer (m_data v) \<longrightarrow> heap (snd (Vector_dtor v s)) a = heap s a)"
proof (cases "m_capacity (m_data v) = 0")
  case True
  with assms have "m_size v = 0" "m_buffer (m_data v) = nullptr"
    by (auto simp: owns_block_def)
  then show ?thesis
    by (simp add: Vector_dtor_def RawMemory_dtor_def Deallocate_def)
next
  case False
  with assms obtain b where b: "heap s (m_buffer (m_data v)) = Some b"
    "m_size v \<le> length b" "live (take (m_size v) b)" "m_buffer (m_data v) \<noteq> nullptr"
    by (auto simp: owns_block_def split: option.splits)
  let ?a = "m_buffer (m_data v)"
  let ?s1 = "s\<lparr>heap := (heap s)(?a \<mapsto> take 0 b @ replicate (m_size v) None @ drop (0 + m_size v) b),
               trace := trace s @ replicate (m_size v) Dtor\<rparr>"
  have d: "destroy_n (?a, 0) (m_size v) s = (Inr (), ?s1)"
    using b by (intro destroy_n_block) auto
  have "Vector_dtor v s = Deallocate ?a ?s1"
    using d by (simp add: Vector_dtor_def andthen_def GetAddress_def RawMemory_dtor_def)
  also have "\<dots> = (Inr (), ?s1\<lparr>heap := (heap ?s1)(?a := None),
      avail := avail ?s1 + length (replicate (m_size v) None @ drop (m_size v) b)\<rparr>)"
    using b(4) by (intro Deallocate_block) auto
  finally show ?thesis by simp
qed

lemma Vector_move_assign_swap:
  assumes "this \<noteq> rhs" "vecs s this = Some v" "vecs s rhs = Some r"
    "\<not> m_capacity (m_data v) < m_size r"
  shows "Vector_move_assign this rhs s
     = (Inr (), s\<lparr>vecs := (vecs s)(rhs \<mapsto> v, this \<mapsto> r)\<rparr>)"
  using assms by (simp add: Vector_move_assign_def get_vec_eq andthen_Inr Swap_state)

lemma Vector_move_assign_temp:
  assumes ne: "this \<noteq> rhs" and v: "vecs s this = Some v" and r: "vecs s rhs = Some r"
    and c: "m_capacity (m_data v) < m_size r" and o: "owns_block v s"
  shows "fst (Vector_move_assign this rhs s) = Inr () \<and>
         vecs (snd (Vector_move_assign this rhs s)) = (vecs s)(rhs \<mapsto> Vector_default, this \<mapsto> r) \<and>
         (\<forall>a. a \<noteq> m_buffer (m_data v) \<longrightarrow> heap (snd (Vector_move_assign this rhs s)) a = heap s a)"
proof -
  let ?s1 = "s\<lparr>vecs := (vecs s)(rhs \<mapsto> Vector_default, this \<mapsto> r)\<rparr>"
  have o1: "owns_block v ?s1" using o by (simp add: owns_block_def)
  have "Vector_move_assign this rhs s = Vector_dtor v ?s1"
    using ne v r c
    by (simp add: Vector_move_assign_def get_vec_eq andthen_Inr Vector_Swap_default
        Vector_Swap_eq put_vec_def andthen_def)
  then show ?thesis using Vector_dtor_owned[OF o1] by simp
qed

lemma elements_same_block:
  "vecs s' this = Some r \<Longrightarrow> vecs s rhs = Some r \<Longrightarrow>
   heap s' (m_buffer (m_data r)) = heap s (m_buffer (m_data r)) \<Longrightarrow>
   elements this s' = elements rhs s"
  by (simp add: elements_def block_of_def)

lemma wf_vector_elements: "wf_vector this s \<Longrightarrow> elements this s \<noteq> None"
  by (auto simp: wf_vector_def owns_block_def elements_def block_of_def live_def nullptr_def
      split: option.splits if_splits)

subsection \<open>Relocation into a new block\<close>

lemma log_eq: "log e s = (Inr (), s\<lparr>trace := trace s @ [e]\<rparr>)"
  by (simp add: log_def)

lemma move_construct_across:
  assumes "heap s sa = Some b" "si < length b" "b ! si = Some x"
    "heap s da = Some d" "di < length d" "d ! di = None" "sa \<noteq> da"
  shows "move_construct T (da, di) (sa, si) s =
     (Inr (), s\<lparr>heap := (heap s)(sa \<mapsto> b[si := Some (moved_from T x)], da \<mapsto> d[di := Some x]),
               trace := trace s @ [MoveCtor]\<rparr>)"
proof -
  let ?s1 = "s\<lparr>heap := (heap s)(sa \<mapsto> b[si := Some (moved_from T x)])\<rparr>"
  let ?s2 = "?s1\<lparr>trace := trace ?s1 @ [MoveCtor]\<rparr>"
  have 1: "load (sa, si) s = (Inr x, s)" using assms by (intro load_live)
  have 2: "overwrite (sa, si) (moved_from T x) s = (Inr (), ?s1)"
    using assms by (intro overwrite_live)
  have 3: "log MoveCtor ?s1 = (Inr (), ?s2)" by (rule log_eq)
  have 4: "construct_at (da, di) x ?s2
      = (Inr (), ?s2\<lparr>heap := (heap ?s2)(da \<mapsto> d[di := Some x])\<rparr>)"
    using assms by (intro construct_at_raw) auto
  have "move_construct T (da, di) (sa, si) s = construct_at (da, di) x ?s2"
    unfolding move_construct_def by (simp add: andthen_def 1 2 3)
  also note 4
  finally show ?thesis by simp
qed

lemma copy_construct_across:
  assumes "heap s sa = Some b" "si < length b" "b ! si = Some x"
    "heap s da = Some d" "di < length d" "d ! di = None"
    "\<not> copy_throws T (copies s)"
  shows "copy_construct T (da, di) (sa, si) s =
     (Inr (), s\<lparr>heap := (heap s)(da \<mapsto> d[di := Some x]), copies := copies s + 1,
               trace := trace s @ [CopyCtor]\<rparr>)"
proof -
  let ?s1 = "s\<lparr>copies := copies s + 1, trace := trace s @ [CopyCtor]\<rparr>"
  have 1: "load (sa, si) s = (Inr x, s)" using assms by (intro load_live)
  have 2: "copy_ctor T (Inside (sa, si)) s = (Inr x, ?s1)"
    using assms(7) by (simp add: copy_ctor_def deref_def andthen_def 1)
  have 3: "construct_at (da, di) x ?s1
      = (Inr (), ?s1\<lparr>heap := (heap ?s1)(da \<mapsto> d[di := Some x])\<rparr>)"
    using assms by (intro construct_at_raw) auto
  have "copy_construct T (da, di) (sa, si) s = construct_at (da, di) x ?s1"
    unfolding copy_construct_def construct_def make_def by (simp add: andthen_def 2)
  also note 3
  finally show ?thesis by simp
qed

lemma copy_construct_throws:
  assumes "heap s sa = Some b" "si < length b" "b ! si = Some x"
    "copy_throws T (copies s)"
  shows "copy_construct T dst (sa, si) s = (Inl copy_threw, s\<lparr>copies := copies s + 1\<rparr>)"
proof -
  have 1: "load (sa, si) s = (Inr x, s)" using assms by (intro load_live)
  have 2: "copy_ctor T (Inside (sa, si)) s = (Inl copy_threw, s\<lparr>copies := copies s + 1\<rparr>)"
    using assms(4) by (simp add: copy_ctor_def deref_def andthen_def 1)
  show ?thesis
    unfolding copy_construct_def construct_def make_def
    by (simp add: andthen_def 2)
qed

lemma live_head: "live (take (Suc n) (drop i b)) \<Longrightarrow> i < length b \<Longrightarrow> \<exists>x. b ! i = Some x"
  unfolding live_range by fastforce

lemma raw_head: "raw (take (Suc n) (drop i b)) \<Longrightarrow> i < length b \<Longrightarrow> b ! i = None"
  unfolding raw_range by fastforce

lemma live_tail: "live (take (Suc n) (drop i b)) \<Longrightarrow> live (take n (drop (Suc i) (b[j := v])))" if "j \<le> i" for j
  using that unfolding live_range by (auto simp: nth_list_update)

lemma raw_tail: "raw (take (Suc n) (drop i b)) \<Longrightarrow> raw (take n (drop (Suc i) (b[j := v])))" if "j \<le> i" for j
  using that unfolding raw_range by (auto simp: nth_list_update)

lemma heap_upd2:
  "sa \<noteq> da \<Longrightarrow> ((h(sa \<mapsto> b1, da \<mapsto> d1))(sa \<mapsto> b2, da \<mapsto> d2)) = (h(sa \<mapsto> b2, da \<mapsto> d2))"
  by (rule ext) simp

lemma uninitialized_move_n_across:
  assumes "heap s sa = Some b" "heap s da = Some d" "sa \<noteq> da"
    "si + n \<le> length b" "di + n \<le> length d"
    "live (take n (drop si b))" "raw (take n (drop di d))"
  shows "uninitialized_move_n T (sa, si) n (da, di) s =
     (Inr (), s\<lparr>heap := (heap s)
                  (sa \<mapsto> take si b @ map (map_option (moved_from T)) (take n (drop si b)) @ drop (si + n) b,
                   da \<mapsto> take di d @ take n (drop si b) @ drop (di + n) d),
               trace := trace s @ replicate n MoveCtor\<rparr>)"
  using assms
proof (induction n arbitrary: s b d si di)
  case 0
  then show ?case
    by (simp add: ok_def fun_upd_idem map_upd_triv)
next
  case (Suc n)
  from Suc.prems have si: "si < length b" and di: "di < length d" by simp_all
  from live_head[OF Suc.prems(6) si] obtain x where x: "b ! si = Some x" ..
  have dn: "d ! di = None" using raw_head[OF Suc.prems(7) di] .
  let ?b1 = "b[si := Some (moved_from T x)]" and ?d1 = "d[di := Some x]"
  let ?s1 = "s\<lparr>heap := (heap s)(sa \<mapsto> ?b1, da \<mapsto> ?d1), trace := trace s @ [MoveCtor]\<rparr>"
  have 1: "move_construct T (da, di) (sa, si) s = (Inr (), ?s1)"
    using Suc.prems(1) si x Suc.prems(2) di dn Suc.prems(3) by (rule move_construct_across)
  have eb: "take (Suc si) ?b1 @ map (map_option (moved_from T)) (take n (drop (Suc si) ?b1))
        @ drop (Suc si + n) ?b1
      = take si b @ map (map_option (moved_from T)) (take (Suc n) (drop si b)) @ drop (si + Suc n) b"
    using si x by (simp add: take_Suc_conv_app_nth flip: Cons_nth_drop_Suc)
  have ed: "take (Suc di) ?d1 @ take n (drop (Suc si) ?b1) @ drop (Suc di + n) ?d1
      = take di d @ take (Suc n) (drop si b) @ drop (di + Suc n) d"
    using si di x by (simp add: take_Suc_conv_app_nth flip: Cons_nth_drop_Suc)
  have "uninitialized_move_n T (sa, si) (Suc n) (da, di) s
      = uninitialized_move_n T (sa, Suc si) n (da, Suc di) ?s1"
    by (simp add: andthen_def 1 ptr_add_def)
  also have "\<dots> = (Inr (), ?s1\<lparr>heap := (heap ?s1)
                  (sa \<mapsto> take (Suc si) ?b1 @ map (map_option (moved_from T)) (take n (drop (Suc si) ?b1)) @ drop (Suc si + n) ?b1,
                   da \<mapsto> take (Suc di) ?d1 @ take n (drop (Suc si) ?b1) @ drop (Suc di + n) ?d1),
               trace := trace ?s1 @ replicate n MoveCtor\<rparr>)"
    using Suc.prems(3,4,5) live_tail[OF le_refl Suc.prems(6)] raw_tail[OF le_refl Suc.prems(7)]
    by (intro Suc.IH) auto
  also have "\<dots> = (Inr (), s\<lparr>heap := (heap s)
                  (sa \<mapsto> take si b @ map (map_option (moved_from T)) (take (Suc n) (drop si b)) @ drop (si + Suc n) b,
                   da \<mapsto> take di d @ take (Suc n) (drop si b) @ drop (di + Suc n) d),
               trace := trace s @ replicate (Suc n) MoveCtor\<rparr>)"
    unfolding eb ed using Suc.prems(3) by (simp add: heap_upd2 replicate_append_same)
  finally show ?case .
qed

lemma uninitialized_copy_n_across:
  assumes "heap s sa = Some b" "heap s da = Some d" "sa \<noteq> da"
    "si + n \<le> length b" "di + n \<le> length d"
    "live (take n (drop si b))" "raw (take n (drop di d))"
    "\<forall>k<n. \<not> copy_throws T (copies s + k)"
  shows "uninitialized_copy_n T (sa, si) n (da, di) s =
     (Inr (), s\<lparr>heap := (heap s)(da \<mapsto> take di d @ take n (drop si b) @ drop (di + n) d),
               copies := copies s + n,
               trace := trace s @ replicate n CopyCtor\<rparr>)"
  using assms
proof (induction n arbitrary: s d si di)
  case 0
  then show ?case
    by (simp add: ok_def map_upd_triv)
next
  case (Suc n)
  from Suc.prems have si: "si < length b" and di: "di < length d" by simp_all
  from live_head[OF Suc.prems(6) si] obtain x where x: "b ! si = Some x" ..
  have dn: "d ! di = None" using raw_head[OF Suc.prems(7) di] .
  have nt: "\<not> copy_throws T (copies s)" using Suc.prems(8) by force
  let ?d1 = "d[di := Some x]"
  let ?s1 = "s\<lparr>heap := (heap s)(da \<mapsto> ?d1), copies := copies s + 1,
                 trace := trace s @ [CopyCtor]\<rparr>"
  have 1: "copy_construct T (da, di) (sa, si) s = (Inr (), ?s1)"
    using Suc.prems(1) si x Suc.prems(2) di dn nt by (rule copy_construct_across)
  have ed: "take (Suc di) ?d1 @ take n (drop (Suc si) b) @ drop (Suc di + n) ?d1
      = take di d @ take (Suc n) (drop si b) @ drop (di + Suc n) d"
    using si di x by (simp add: take_Suc_conv_app_nth flip: Cons_nth_drop_Suc)
  have nk: "\<forall>k<n. \<not> copy_throws T (copies ?s1 + k)"
    using Suc.prems(8) by (auto simp: less_Suc_eq_0_disj)
  have l: "live (take n (drop (Suc si) b))"
    using live_tail[OF le_refl Suc.prems(6), of "b ! si"] by simp
  have 2: "uninitialized_copy_n T (sa, Suc si) n (da, Suc di) ?s1
     = (Inr (), ?s1\<lparr>heap := (heap ?s1)
                  (da \<mapsto> take (Suc di) ?d1 @ take n (drop (Suc si) b) @ drop (Suc di + n) ?d1),
               copies := copies ?s1 + n,
               trace := trace ?s1 @ replicate n CopyCtor\<rparr>)"
    using Suc.prems(1,3,4,5) l raw_tail[OF le_refl Suc.prems(7)] nk
    by (intro Suc.IH) auto
  have "uninitialized_copy_n T (sa, si) (Suc n) (da, di) s
      = unwinding (destroy_at (da, di)) (uninitialized_copy_n T (sa, Suc si) n (da, Suc di)) ?s1"
    by (simp add: andthen_def 1 ptr_add_def)
  also have "\<dots> = (Inr (), ?s1\<lparr>heap := (heap ?s1)
                  (da \<mapsto> take (Suc di) ?d1 @ take n (drop (Suc si) b) @ drop (Suc di + n) ?d1),
               copies := copies ?s1 + n,
               trace := trace ?s1 @ replicate n CopyCtor\<rparr>)"
    using 2 by (rule unwinding_Inr)
  also have "\<dots> = (Inr (), s\<lparr>heap := (heap s)
                  (da \<mapsto> take di d @ take (Suc n) (drop si b) @ drop (di + Suc n) d),
               copies := copies s + Suc n,
               trace := trace s @ replicate (Suc n) CopyCtor\<rparr>)"
    unfolding ed by (simp add: replicate_append_same)
  finally show ?case .
qed

text \<open>When one of the copies throws, the exception leaves and the heap is as before.\<close>

lemma uninitialized_copy_n_throws:
  assumes "heap s sa = Some b" "heap s da = Some d" "sa \<noteq> da"
    "si + n \<le> length b" "di + n \<le> length d"
    "live (take n (drop si b))" "raw (take n (drop di d))"
    "\<exists>k<n. copy_throws T (copies s + k)"
  shows "fst (uninitialized_copy_n T (sa, si) n (da, di) s) = Inl copy_threw \<and>
         heap (snd (uninitialized_copy_n T (sa, si) n (da, di) s)) = heap s"
  using assms
proof (induction n arbitrary: s d si di)
  case 0
  then show ?case by simp
next
  case (Suc n)
  from Suc.prems have si: "si < length b" and di: "di < length d" by simp_all
  from live_head[OF Suc.prems(6) si] obtain x where x: "b ! si = Some x" ..
  have dn: "d ! di = None" using raw_head[OF Suc.prems(7) di] .
  show ?case
  proof (cases "copy_throws T (copies s)")
    case True
    have "copy_construct T (da, di) (sa, si) s = (Inl copy_threw, s\<lparr>copies := copies s + 1\<rparr>)"
      using Suc.prems(1) si x True by (rule copy_construct_throws)
    then show ?thesis by (simp add: andthen_def)
  next
    case False
    let ?d1 = "d[di := Some x]"
    let ?s1 = "s\<lparr>heap := (heap s)(da \<mapsto> ?d1), copies := copies s + 1,
                 trace := trace s @ [CopyCtor]\<rparr>"
    have 1: "copy_construct T (da, di) (sa, si) s = (Inr (), ?s1)"
      using Suc.prems(1) si x Suc.prems(2) di dn False by (rule copy_construct_across)
    from Suc.prems(8) False have nk: "\<exists>k<n. copy_throws T (copies ?s1 + k)"
      by (auto simp: less_Suc_eq_0_disj)
    have l: "live (take n (drop (Suc si) b))"
      using live_tail[OF le_refl Suc.prems(6), of "b ! si"] by simp
    obtain r2 s2 where 2: "uninitialized_copy_n T (sa, Suc si) n (da, Suc di) ?s1 = (r2, s2)"
      by (cases "uninitialized_copy_n T (sa, Suc si) n (da, Suc di) ?s1")
    have "fst (uninitialized_copy_n T (sa, Suc si) n (da, Suc di) ?s1) = Inl copy_threw \<and>
         heap (snd (uninitialized_copy_n T (sa, Suc si) n (da, Suc di) ?s1)) = heap ?s1"
      using Suc.prems(1,3,4,5) l raw_tail[OF le_refl Suc.prems(7)] nk
      by (intro Suc.IH[where d = "?d1"]) auto
    with 2 have r2: "r2 = Inl copy_threw" and h2: "heap s2 = (heap s)(da \<mapsto> ?d1)" by simp_all
    have 3: "destroy_at (da, di) s2
       = (Inr (), s2\<lparr>heap := (heap s2)(da \<mapsto> ?d1[di := None]), trace := trace s2 @ [Dtor]\<rparr>)"
      using di by (intro destroy_at_live[where y = x]) (simp_all add: h2)
    have e: "?d1[di := None] = d" using dn di by (simp add: list_update_same_conv)
    have "uninitialized_copy_n T (sa, si) (Suc n) (da, di) s
      = unwinding (destroy_at (da, di)) (uninitialized_copy_n T (sa, Suc si) n (da, Suc di)) ?s1"
      by (simp add: andthen_def 1 ptr_add_def)
    also have "\<dots> = (Inl copy_threw,
         s2\<lparr>heap := (heap s2)(da \<mapsto> ?d1[di := None]), trace := trace s2 @ [Dtor]\<rparr>)"
      using 2 r2 3 by (simp add: unwinding_def)
    finally show ?thesis
      using Suc.prems(2) unfolding e by (simp add: h2 map_upd_triv)
  qed
qed

lemma live_all_take: "live b \<Longrightarrow> live (take n (drop i b))"
  unfolding live_range by (auto simp: live_def list_all_length)

lemma raw_replicate_upd:
  "raw (take n (drop i ((replicate m None)[j := v])))" if "j < i \<or> i + n \<le> j"
  using that unfolding raw_range by (auto simp: nth_list_update)

lemma live_map: "live b \<Longrightarrow> live (map (map_option f) b)"
  by (auto simp: live_def list_all_length)

lemma relocate_by_move:
  assumes hb: "heap s old = Some b" and hd: "heap s new = Some d" and ne: "old \<noteq> new"
    and lb: "live b" and pos: "pos \<le> length b" and n': "length b + 1 \<le> n'"
    and d: "d = (replicate n' None)[pos := Some x]"
  shows "andthen (uninitialized_move_n T (old, 0) pos (new, 0)) (\<lambda>_.
         andthen (uninitialized_move_n T (old, pos) (length b - pos) (new, pos + 1)) (\<lambda>_.
         destroy_n (old, 0) (length b))) s
       = (Inr (), s\<lparr>heap := (heap s)
                   (old \<mapsto> replicate (length b) None,
                    new \<mapsto> take pos b @ [Some x] @ drop pos b @ replicate (n' - length b - 1) None),
                 trace := trace s @ replicate (length b) MoveCtor @ replicate (length b) Dtor\<rparr>)"
proof -
  let ?mf = "map_option (moved_from T)"
  let ?bA = "take 0 b @ map ?mf (take pos (drop 0 b)) @ drop (0 + pos) b"
  let ?dA = "take 0 d @ take pos (drop 0 b) @ drop (0 + pos) d"
  let ?sA = "s\<lparr>heap := (heap s)(old \<mapsto> ?bA, new \<mapsto> ?dA), trace := trace s @ replicate pos MoveCtor\<rparr>"
  have ld: "length d = n'" using d by simp
  have A1: "0 + pos \<le> length b" "0 + pos \<le> length d" using pos n' ld by simp_all
  have A2: "raw (take pos (drop 0 d))"
    unfolding d by (rule raw_replicate_upd) simp
  have A: "uninitialized_move_n T (old, 0) pos (new, 0) s = (Inr (), ?sA)"
    by (rule uninitialized_move_n_across[OF hb hd ne A1 live_all_take[OF lb] A2])
  let ?k = "length b - pos"
  let ?bB = "take pos ?bA @ map ?mf (take ?k (drop pos ?bA)) @ drop (pos + ?k) ?bA"
  let ?dB = "take (pos + 1) ?dA @ take ?k (drop pos ?bA) @ drop (pos + 1 + ?k) ?dA"
  let ?sB = "?sA\<lparr>heap := (heap ?sA)(old \<mapsto> ?bB, new \<mapsto> ?dB), trace := trace ?sA @ replicate ?k MoveCtor\<rparr>"
  have rawB: "raw (take ?k (drop (pos + 1) ?dA))"
    unfolding raw_range using pos n' by (auto simp: d nth_append nth_list_update)
  have dropA: "drop pos ?bA = drop pos b" using pos by simp
  have liveB: "live (take ?k (drop pos ?bA))"
    unfolding dropA by (rule live_all_take[OF lb])
  have B1: "heap ?sA old = Some ?bA" "heap ?sA new = Some ?dA" using ne by simp_all
  have B2: "pos + ?k \<le> length ?bA" "pos + 1 + ?k \<le> length ?dA" using pos n' ld by simp_all
  have B: "uninitialized_move_n T (old, pos) ?k (new, pos + 1) ?sA = (Inr (), ?sB)"
    by (rule uninitialized_move_n_across[OF B1 ne B2 liveB rawB])
  have "?bB = map ?mf (take pos b) @ map ?mf (drop pos b)"
    unfolding dropA using pos by simp
  then have bB: "?bB = map ?mf b" by (simp flip: map_append)
  have liveC: "live (take (length b) (drop 0 ?bB))"
    unfolding bB by (rule live_all_take[OF live_map[OF lb]])
  let ?sC = "?sB\<lparr>heap := (heap ?sB)(old \<mapsto> take 0 ?bB @ replicate (length b) None @ drop (0 + length b) ?bB),
               trace := trace ?sB @ replicate (length b) Dtor\<rparr>"
  have C1: "heap ?sB old = Some ?bB" using ne by simp
  have C2: "0 + length b \<le> length ?bB" using pos by simp
  have C: "destroy_n (old, 0) (length b) ?sB = (Inr (), ?sC)"
    by (rule destroy_n_block[OF C1 C2 liveC])
  have eb: "take 0 ?bB @ replicate (length b) None @ drop (0 + length b) ?bB = replicate (length b) None"
    unfolding bB by simp
  have ed: "?dB = take pos b @ [Some x] @ drop pos b @ replicate (n' - length b - 1) None"
    using pos n' by (intro nth_equalityI) (auto simp: d nth_append nth_list_update min_def)
  have et: "replicate pos MoveCtor @ replicate ?k MoveCtor = replicate (length b) MoveCtor"
    using pos by (simp flip: replicate_add)
  have "andthen (uninitialized_move_n T (old, 0) pos (new, 0)) (\<lambda>_.
         andthen (uninitialized_move_n T (old, pos) (length b - pos) (new, pos + 1)) (\<lambda>_.
         destroy_n (old, 0) (length b))) s = (Inr (), ?sC)"
    by (simp only: andthen_Inr[where m = "uninitialized_move_n T (old, 0) pos (new, 0)", OF A]
        andthen_Inr[where m = "uninitialized_move_n T (old, pos) (length b - pos) (new, pos + 1)", OF B] C)
  also have "?sC = s\<lparr>heap := (heap s)
                   (old \<mapsto> replicate (length b) None,
                    new \<mapsto> take pos b @ [Some x] @ drop pos b @ replicate (n' - length b - 1) None),
                 trace := trace s @ replicate (length b) MoveCtor @ replicate (length b) Dtor\<rparr>"
    unfolding eb ed using ne et by (simp add: heap_upd2 fun_upd_twist)
  finally show ?thesis .
qed

lemma relocate_by_copy:
  assumes hb: "heap s old = Some b" and hd: "heap s new = Some d" and ne: "old \<noteq> new"
    and lb: "live b" and pos: "pos \<le> length b" and n': "length b + 1 \<le> n'"
    and d: "d = (replicate n' None)[pos := Some x]"
    and nt: "\<forall>k<length b. \<not> copy_throws T (copies s + k)"
  shows "andthen (uninitialized_copy_n T (old, 0) pos (new, 0)) (\<lambda>_.
         andthen (uninitialized_copy_n T (old, pos) (length b - pos) (new, pos + 1)) (\<lambda>_.
         destroy_n (old, 0) (length b))) s
       = (Inr (), s\<lparr>heap := (heap s)
                   (old \<mapsto> replicate (length b) None,
                    new \<mapsto> take pos b @ [Some x] @ drop pos b @ replicate (n' - length b - 1) None),
                 copies := copies s + length b,
                 trace := trace s @ replicate (length b) CopyCtor @ replicate (length b) Dtor\<rparr>)"
proof -
  let ?dA = "take 0 d @ take pos (drop 0 b) @ drop (0 + pos) d"
  let ?sA = "s\<lparr>heap := (heap s)(new \<mapsto> ?dA), copies := copies s + pos,
                trace := trace s @ replicate pos CopyCtor\<rparr>"
  have ld: "length d = n'" using d by simp
  have A1: "0 + pos \<le> length b" "0 + pos \<le> length d" using pos n' ld by simp_all
  have A2: "raw (take pos (drop 0 d))"
    unfolding d by (rule raw_replicate_upd) simp
  have A3: "\<forall>k<pos. \<not> copy_throws T (copies s + k)" using nt pos by auto
  have A: "uninitialized_copy_n T (old, 0) pos (new, 0) s = (Inr (), ?sA)"
    by (rule uninitialized_copy_n_across[OF hb hd ne A1 live_all_take[OF lb] A2 A3])
  let ?k = "length b - pos"
  let ?dB = "take (pos + 1) ?dA @ take ?k (drop pos b) @ drop (pos + 1 + ?k) ?dA"
  let ?sB = "?sA\<lparr>heap := (heap ?sA)(new \<mapsto> ?dB), copies := copies ?sA + ?k,
                 trace := trace ?sA @ replicate ?k CopyCtor\<rparr>"
  have rawB: "raw (take ?k (drop (pos + 1) ?dA))"
    unfolding raw_range using pos n' by (auto simp: d nth_append nth_list_update)
  have B1: "heap ?sA old = Some b" "heap ?sA new = Some ?dA" using ne hb by simp_all
  have B2: "pos + ?k \<le> length b" "pos + 1 + ?k \<le> length ?dA" using pos n' ld by simp_all
  have B3: "\<forall>k<?k. \<not> copy_throws T (copies ?sA + k)" using nt pos by (auto simp: add.assoc)
  have B: "uninitialized_copy_n T (old, pos) ?k (new, pos + 1) ?sA = (Inr (), ?sB)"
    by (rule uninitialized_copy_n_across[OF B1 ne B2 live_all_take[OF lb] rawB B3])
  let ?sC = "?sB\<lparr>heap := (heap ?sB)(old \<mapsto> take 0 b @ replicate (length b) None @ drop (0 + length b) b),
               trace := trace ?sB @ replicate (length b) Dtor\<rparr>"
  have C1: "heap ?sB old = Some b" using ne hb by simp
  have C: "destroy_n (old, 0) (length b) ?sB = (Inr (), ?sC)"
    by (rule destroy_n_block[OF C1 _ live_all_take[OF lb]]) simp
  have ed: "?dB = take pos b @ [Some x] @ drop pos b @ replicate (n' - length b - 1) None"
    using pos n' by (intro nth_equalityI) (auto simp: d nth_append nth_list_update min_def)
  have et: "replicate pos CopyCtor @ replicate ?k CopyCtor = replicate (length b) CopyCtor"
    using pos by (simp flip: replicate_add)
  have "andthen (uninitialized_copy_n T (old, 0) pos (new, 0)) (\<lambda>_.
         andthen (uninitialized_copy_n T (old, pos) (length b - pos) (new, pos + 1)) (\<lambda>_.
         destroy_n (old, 0) (length b))) s = (Inr (), ?sC)"
    by (simp only: andthen_Inr[where m = "uninitialized_copy_n T (old, 0) pos (new, 0)", OF A]
        andthen_Inr[where m = "uninitialized_copy_n T (old, pos) (length b - pos) (new, pos + 1)", OF B] C)
  also have "?sC = s\<lparr>heap := (heap s)
                   (old \<mapsto> replicate (length b) None,
                    new \<mapsto> take pos b @ [Some x] @ drop pos b @ replicate (n' - length b - 1) None),
                 copies := copies s + length b,
                 trace := trace s @ replicate (length b) CopyCtor @ replicate (length b) Dtor\<rparr>"
    unfolding ed using ne et pos by (simp add: fun_upd_twist)
  finally show ?thesis .
qed

lemma relocate_by_copy_throws:
  assumes hb: "heap s old = Some b" and hd: "heap s new = Some d" and ne: "old \<noteq> new"
    and lb: "live b" and pos: "pos \<le> length b" and n': "length b + 1 \<le> n'"
    and d: "d = (replicate n' None)[pos := Some x]"
    and th: "\<exists>k<length b. copy_throws T (copies s + k)"
  shows "fst (andthen (uninitialized_copy_n T (old, 0) pos (new, 0)) (\<lambda>_.
         andthen (uninitialized_copy_n T (old, pos) (length b - pos) (new, pos + 1)) (\<lambda>_.
         destroy_n (old, 0) (length b))) s) = Inl copy_threw \<and>
         (\<forall>a. a \<noteq> new \<longrightarrow>
            heap (snd (andthen (uninitialized_copy_n T (old, 0) pos (new, 0)) (\<lambda>_.
              andthen (uninitialized_copy_n T (old, pos) (length b - pos) (new, pos + 1)) (\<lambda>_.
              destroy_n (old, 0) (length b))) s)) a = heap s a) \<and>
         heap (snd (andthen (uninitialized_copy_n T (old, 0) pos (new, 0)) (\<lambda>_.
              andthen (uninitialized_copy_n T (old, pos) (length b - pos) (new, pos + 1)) (\<lambda>_.
              destroy_n (old, 0) (length b))) s)) new \<noteq> None"
proof -
  have ld: "length d = n'" using d by simp
  have A1: "0 + pos \<le> length b" "0 + pos \<le> length d" using pos n' ld by simp_all
  have A2: "raw (take pos (drop 0 d))"
    unfolding d by (rule raw_replicate_upd) simp
  show ?thesis
  proof (cases "\<exists>k<pos. copy_throws T (copies s + k)")
    case True
    obtain r1 s1 where 1: "uninitialized_copy_n T (old, 0) pos (new, 0) s = (r1, s1)"
      by (cases "uninitialized_copy_n T (old, 0) pos (new, 0) s")
    from uninitialized_copy_n_throws[OF hb hd ne A1 live_all_take[OF lb] A2 True] 1
    have "r1 = Inl copy_threw" "heap s1 = heap s" by simp_all
    with 1 hd show ?thesis by (simp add: andthen_def)
  next
    case False
    let ?dA = "take 0 d @ take pos (drop 0 b) @ drop (0 + pos) d"
    let ?sA = "s\<lparr>heap := (heap s)(new \<mapsto> ?dA), copies := copies s + pos,
                trace := trace s @ replicate pos CopyCtor\<rparr>"
    from False have A3: "\<forall>k<pos. \<not> copy_throws T (copies s + k)" by simp
    have A: "uninitialized_copy_n T (old, 0) pos (new, 0) s = (Inr (), ?sA)"
      by (rule uninitialized_copy_n_across[OF hb hd ne A1 live_all_take[OF lb] A2 A3])
    let ?k = "length b - pos"
    have rawB: "raw (take ?k (drop (pos + 1) ?dA))"
      unfolding raw_range using pos n' by (auto simp: d nth_append nth_list_update)
    have B1: "heap ?sA old = Some b" "heap ?sA new = Some ?dA" using ne hb by simp_all
    have B2: "pos + ?k \<le> length b" "pos + 1 + ?k \<le> length ?dA" using pos n' ld by simp_all
    from th obtain k where k: "k < length b" "copy_throws T (copies s + k)" by blast
    with False have "pos \<le> k" by (meson not_le_imp_less)
    with k have "k - pos < ?k \<and> copy_throws T (copies ?sA + (k - pos))" by simp
    then have B3: "\<exists>k<?k. copy_throws T (copies ?sA + k)" by blast
    obtain r2 s2 where 2: "uninitialized_copy_n T (old, pos) ?k (new, pos + 1) ?sA = (r2, s2)"
      by (cases "uninitialized_copy_n T (old, pos) ?k (new, pos + 1) ?sA")
    from uninitialized_copy_n_throws[OF B1 ne B2 live_all_take[OF lb] rawB B3] 2
    have "r2 = Inl copy_threw" "heap s2 = heap ?sA" by simp_all
    with A 2 show ?thesis by (simp add: andthen_def)
  qed
qed

subsection \<open>Growing: Reserve and the reallocating insertion\<close>

lemma unwinding_andthen_Inr:
  "m s = (Inr x, s') \<Longrightarrow> unwinding d (andthen m f) s = unwinding d (f x) s'"
  by (simp add: unwinding_def andthen_def)

lemma unwinding_andthen_Inl:
  "m s = (Inl copy_threw, s') \<Longrightarrow> d s' = (Inr (), s'') \<Longrightarrow>
   unwinding d (andthen m f) s = (Inl copy_threw, s'')"
  by (simp add: unwinding_def andthen_def)

lemma unwinding_Inl:
  "m s = (Inl copy_threw, s') \<Longrightarrow> d s' = (Inr (), s'') \<Longrightarrow>
   unwinding d m s = (Inl copy_threw, s'')"
  by (simp add: unwinding_def)

lemma RawMemory_ctor_eq:
  "can_allocate n s \<Longrightarrow> 0 < n \<Longrightarrow>
   RawMemory_ctor n s =
     (Inr \<lparr>m_buffer = brk s, m_capacity = n\<rparr>,
      s\<lparr>heap := (heap s)(brk s \<mapsto> replicate n None), brk := brk s + 1, avail := avail s - n\<rparr>)"
  by (simp add: RawMemory_ctor_def Allocate_def can_allocate_def andthen_def ok_def)

lemma arg_value_frame:
  assumes "arg_value a s = Some x" "heap s new = None" "\<And>p. p \<noteq> new \<Longrightarrow> heap s' p = heap s p"
  shows "arg_value a s' = Some x"
proof (cases a)
  case (Lvalue r)
  show ?thesis
  proof (cases r)
    case (Outside y)
    with Lvalue assms(1) show ?thesis by (simp add: arg_value_def)
  next
    case (Inside p)
    with Lvalue assms(1) have "heap s (fst p) \<noteq> None"
      by (auto simp: arg_value_def peek_def split: option.splits)
    with assms(2) have "fst p \<noteq> new" by auto
    with assms(3) have "peek p s' = peek p s" by (simp add: peek_def)
    with Lvalue Inside assms(1) show ?thesis by (simp add: arg_value_def)
  qed
qed (use assms(1) in \<open>simp_all add: arg_value_def\<close>)

lemma make_ok:
  assumes "arg_value a s = Some x" "arg_copies a = 0 \<or> \<not> copy_throws T (copies s)"
  shows "make T a s = (Inr x, s\<lparr>copies := copies s + arg_copies a, trace := trace s @ [arg_event a]\<rparr>)"
proof (cases a)
  case (Lvalue r)
  with assms have d: "deref r s = (Inr x, s)"
    by (cases r) (auto simp: arg_value_def deref_def ok_def load_def split: option.splits)
  from Lvalue assms(2) have "\<not> copy_throws T (copies s)" by (simp add: arg_copies_def)
  with Lvalue d show ?thesis
    by (simp add: make_def copy_ctor_def andthen_def arg_copies_def arg_event_def)
next
  case (Rvalue y)
  with assms show ?thesis
    by (simp add: make_def arg_value_def arg_copies_def arg_event_def andthen_def log_def ok_def)
next
  case (Args y)
  with assms show ?thesis
    by (simp add: make_def arg_value_def arg_copies_def arg_event_def andthen_def log_def ok_def)
qed

lemma make_throws:
  assumes "arg_value a s = Some x" "arg_copies a = 1" "copy_throws T (copies s)"
  shows "make T a s = (Inl copy_threw, s\<lparr>copies := copies s + 1\<rparr>)"
proof (cases a)
  case (Lvalue r)
  with assms have d: "deref r s = (Inr x, s)"
    by (cases r) (auto simp: arg_value_def deref_def ok_def load_def split: option.splits)
  with Lvalue assms(3) show ?thesis
    by (simp add: make_def copy_ctor_def andthen_def)
qed (use assms(2) in \<open>simp_all add: arg_copies_def\<close>)

lemma construct_ok:
  assumes "arg_value a s = Some x" "arg_copies a = 0 \<or> \<not> copy_throws T (copies s)"
    "heap s new = Some d" "i < length d" "d ! i = None"
  shows "construct T (new, i) a s =
     (Inr (), s\<lparr>heap := (heap s)(new \<mapsto> d[i := Some x]),
               copies := copies s + arg_copies a, trace := trace s @ [arg_event a]\<rparr>)"
proof -
  let ?s1 = "s\<lparr>copies := copies s + arg_copies a, trace := trace s @ [arg_event a]\<rparr>"
  have 1: "make T a s = (Inr x, ?s1)" using assms(1,2) by (rule make_ok)
  have 2: "construct_at (new, i) x ?s1 = (Inr (), ?s1\<lparr>heap := (heap ?s1)(new \<mapsto> d[i := Some x])\<rparr>)"
    using assms(3-5) by (intro construct_at_raw) auto
  have "construct T (new, i) a s = construct_at (new, i) x ?s1"
    unfolding construct_def by (simp add: andthen_def 1)
  also note 2
  finally show ?thesis by simp
qed

lemma construct_throws:
  assumes "arg_value a s = Some x" "arg_copies a = 1" "copy_throws T (copies s)"
  shows "construct T p a s = (Inl copy_threw, s\<lparr>copies := copies s + 1\<rparr>)"
  unfolding construct_def by (simp add: andthen_def make_throws[OF assms])

lemma RawMemory_Swap_eq: "RawMemory_Swap m other = (other, m)"
  by (simp add: RawMemory_Swap_def)

lemma EmplaceWithReallocate_by_move:
  assumes "vecs s this = Some v" "pos \<le> m_size v"
    "nothrow_move_constructible T \<or> \<not> copy_constructible T"
    "RawMemory_ctor (if m_size v = 0 then 1 else m_size v * 2) s = (Inr nv, s1)"
    "construct T (m_buffer nv, pos) a s1 = (Inr (), s2)"
    "andthen (uninitialized_move_n T (m_buffer (m_data v), 0) pos (m_buffer nv, 0)) (\<lambda>_.
     andthen (uninitialized_move_n T (m_buffer (m_data v), pos) (m_size v - pos)
                (m_buffer nv, pos + 1)) (\<lambda>_.
     destroy_n (m_buffer (m_data v), 0) (m_size v))) s2 = (Inr (), s3)"
    "Deallocate (m_buffer (m_data v)) (s3\<lparr>vecs := (vecs s3)(this \<mapsto> v\<lparr>m_data := nv\<rparr>)\<rparr>)
       = (Inr (), s4)"
  shows "EmplaceWithReallocate T this pos a s = (Inr (), s4)"
  using assms
  by (simp add: EmplaceWithReallocate_def get_vec_def andthen_def unwinding_def put_vec_def
      RawMemory_Swap_eq RawMemory_dtor_def GetAddress_def ptr_add_def begin_ptr_def Let_def
      split del: if_split)

lemma EmplaceWithReallocate_by_copy:
  assumes "vecs s this = Some v" "pos \<le> m_size v"
    "\<not> (nothrow_move_constructible T \<or> \<not> copy_constructible T)"
    "RawMemory_ctor (if m_size v = 0 then 1 else m_size v * 2) s = (Inr nv, s1)"
    "construct T (m_buffer nv, pos) a s1 = (Inr (), s2)"
    "andthen (uninitialized_copy_n T (m_buffer (m_data v), 0) pos (m_buffer nv, 0)) (\<lambda>_.
     andthen (uninitialized_copy_n T (m_buffer (m_data v), pos) (m_size v - pos)
                (m_buffer nv, pos + 1)) (\<lambda>_.
     destroy_n (m_buffer (m_data v), 0) (m_size v))) s2 = (Inr (), s3)"
    "Deallocate (m_buffer (m_data v)) (s3\<lparr>vecs := (vecs s3)(this \<mapsto> v\<lparr>m_data := nv\<rparr>)\<rparr>)
       = (Inr (), s4)"
  shows "EmplaceWithReallocate T this pos a s = (Inr (), s4)"
  using assms
  by (simp add: EmplaceWithReallocate_def get_vec_def andthen_def unwinding_def put_vec_def
      RawMemory_Swap_eq RawMemory_dtor_def GetAddress_def ptr_add_def begin_ptr_def Let_def
      split del: if_split)

lemma EmplaceWithReallocate_construct_throws:
  assumes "vecs s this = Some v" "pos \<le> m_size v"
    "RawMemory_ctor (if m_size v = 0 then 1 else m_size v * 2) s = (Inr nv, s1)"
    "construct T (m_buffer nv, pos) a s1 = (Inl copy_threw, s2)"
    "Deallocate (m_buffer nv) s2 = (Inr (), s3)"
  shows "EmplaceWithReallocate T this pos a s = (Inl copy_threw, s3)"
  using assms
  by (simp add: EmplaceWithReallocate_def get_vec_def andthen_def unwinding_def put_vec_def
      RawMemory_Swap_eq RawMemory_dtor_def GetAddress_def ptr_add_def begin_ptr_def Let_def
      split del: if_split)

lemma EmplaceWithReallocate_copy_throws:
  assumes "vecs s this = Some v" "pos \<le> m_size v"
    "\<not> (nothrow_move_constructible T \<or> \<not> copy_constructible T)"
    "RawMemory_ctor (if m_size v = 0 then 1 else m_size v * 2) s = (Inr nv, s1)"
    "construct T (m_buffer nv, pos) a s1 = (Inr (), s2)"
    "andthen (uninitialized_copy_n T (m_buffer (m_data v), 0) pos (m_buffer nv, 0)) (\<lambda>_.
     andthen (uninitialized_copy_n T (m_buffer (m_data v), pos) (m_size v - pos)
                (m_buffer nv, pos + 1)) (\<lambda>_.
     destroy_n (m_buffer (m_data v), 0) (m_size v))) s2 = (Inl copy_threw, s3)"
    "Deallocate (m_buffer nv) s3 = (Inr (), s4)"
  shows "EmplaceWithReallocate T this pos a s = (Inl copy_threw, s4)"
  using assms
  by (simp add: EmplaceWithReallocate_def get_vec_def andthen_def unwinding_def put_vec_def
      RawMemory_Swap_eq RawMemory_dtor_def GetAddress_def ptr_add_def begin_ptr_def Let_def
      split del: if_split)

lemma owns_block_full:
  assumes o: "owns_block v s" and f: "m_capacity (m_data v) \<le> m_size v" and n: "0 < m_size v"
  shows "\<exists>b. heap s (m_buffer (m_data v)) = Some b \<and> length b = m_size v \<and> live b \<and>
    m_buffer (m_data v) \<noteq> nullptr \<and> take (m_size v) (block_of v s) = b"
proof -
  from o f have c: "m_capacity (m_data v) = m_size v" by (simp add: owns_block_def)
  with o n have nn: "m_buffer (m_data v) \<noteq> nullptr" by (simp add: owns_block_def)
  from o n c obtain b where b: "heap s (m_buffer (m_data v)) = Some b"
    by (cases "heap s (m_buffer (m_data v))") (simp_all add: owns_block_def)
  with o n c have lb: "length b = m_size v" and "live (take (m_size v) b)"
    by (auto simp: owns_block_def)
  then have "live b" by simp
  with b nn lb show ?thesis by (simp add: block_of_def)
qed

lemma owns_block_empty:
  assumes "owns_block v s" "m_capacity (m_data v) \<le> m_size v" "m_size v = 0"
  shows "m_buffer (m_data v) = nullptr" "m_capacity (m_data v) = 0"
  using assms by (auto simp: owns_block_def split: if_splits)

lemma EmplaceWithReallocate_state:
  fixes T :: "'a elem_type"
  defines "n' \<equiv> \<lambda>v. if m_size v = 0 then 1 else m_size v * 2"
  assumes v: "vecs s this = Some v" and o: "owns_block v s"
    and full: "m_capacity (m_data v) \<le> m_size v" and pos: "pos \<le> m_size v"
    and al: "can_allocate (n' v) s" and av: "arg_value a s = Some x"
    and nt: "\<forall>k < arg_copies a + (if relocation_event T = MoveCtor then 0 else m_size v).
               \<not> copy_throws T (copies s + k)"
  shows "\<exists>s'. EmplaceWithReallocate T this pos a s = (Inr (), s') \<and>
           vecs s' = (vecs s)(this \<mapsto> v\<lparr>m_data := \<lparr>m_buffer = brk s, m_capacity = n' v\<rparr>\<rparr>) \<and>
           heap s' (brk s) = Some (take pos (take (m_size v) (block_of v s)) @ [Some x] @
               drop pos (take (m_size v) (block_of v s)) @ replicate (n' v - m_size v - 1) None) \<and>
           trace s' = trace s @ arg_event a # replicate (m_size v) (relocation_event T)
               @ replicate (m_size v) Dtor \<and>
           copies s' = copies s + arg_copies a
               + (if relocation_event T = MoveCtor then 0 else m_size v)"
proof -
  let ?new = "brk s" and ?old = "m_buffer (m_data v)" and ?n = "m_size v"
  let ?nv = "\<lparr>m_buffer = ?new, m_capacity = n' v\<rparr>"
  let ?s1 = "s\<lparr>heap := (heap s)(?new \<mapsto> replicate (n' v) None), brk := brk s + 1,
               avail := avail s - n' v\<rparr>"
  let ?d0 = "(replicate (n' v) None)[pos := Some x]"
  let ?s2 = "?s1\<lparr>heap := (heap ?s1)(?new \<mapsto> ?d0),
               copies := copies ?s1 + arg_copies a, trace := trace ?s1 @ [arg_event a]\<rparr>"
  have n'pos: "0 < n' v" and n'big: "?n + 1 \<le> n' v" by (simp_all add: n'_def)
  have fresh: "heap s ?new = None" "?new \<noteq> nullptr" using al by (simp_all add: can_allocate_def)
  have A: "RawMemory_ctor (if m_size v = 0 then 1 else m_size v * 2) s = (Inr ?nv, ?s1)"
    using RawMemory_ctor_eq[OF al n'pos] by (simp add: n'_def)
  have av1: "arg_value a ?s1 = Some x"
    by (rule arg_value_frame[OF av fresh(1)]) simp
  have nta: "arg_copies a = 0 \<or> \<not> copy_throws T (copies ?s1)"
    using nt by (cases "arg_copies a = 0") auto
  have C: "construct T (m_buffer ?nv, pos) a ?s1 = (Inr (), ?s2)"
    using construct_ok[OF av1 nta, of ?new "replicate (n' v) None" pos] pos n'big by simp
  show ?thesis
  proof (cases "?n = 0")
    case True
    note e = owns_block_empty[OF o full True]
    from True pos have p0: "pos = 0" by simp
    let ?s4 = "?s2\<lparr>vecs := (vecs ?s2)(this \<mapsto> v\<lparr>m_data := ?nv\<rparr>)\<rparr>"
    have D: "Deallocate (m_buffer (m_data v)) ?s4 = (Inr (), ?s4)"
      using e by (simp add: Deallocate_def)
    have "EmplaceWithReallocate T this pos a s = (Inr (), ?s4)"
    proof (cases "nothrow_move_constructible T \<or> \<not> copy_constructible T")
      case m: True
      show ?thesis
        by (rule EmplaceWithReallocate_by_move[OF v pos m A C _ D]) (simp add: True p0 ok_def)
    next
      case c: False
      show ?thesis
        by (rule EmplaceWithReallocate_by_copy[OF v pos c A C _ D]) (simp add: True p0 ok_def)
    qed
    then show ?thesis using True p0 by (simp add: n'_def)
  next
    case False
    then have npos: "0 < ?n" by simp
    from owns_block_full[OF o full npos] obtain b where b: "heap s ?old = Some b"
      "length b = ?n" "live b" "?old \<noteq> nullptr" "take ?n (block_of v s) = b" by blast
    have ne: "?old \<noteq> ?new" using b(1) fresh(1) by auto
    have hb: "heap ?s2 ?old = Some b" using b(1) ne by simp
    have hd: "heap ?s2 ?new = Some ?d0" by simp
    have posb: "pos \<le> length b" and nb: "length b + 1 \<le> n' v" using pos n'big b(2) by simp_all
    let ?NEW = "take pos b @ [Some x] @ drop pos b @ replicate (n' v - length b - 1) None"
    show ?thesis
    proof (cases "nothrow_move_constructible T \<or> \<not> copy_constructible T")
      case m: True
      let ?s3 = "?s2\<lparr>heap := (heap ?s2)(?old \<mapsto> replicate (length b) None, ?new \<mapsto> ?NEW),
                 trace := trace ?s2 @ replicate (length b) MoveCtor @ replicate (length b) Dtor\<rparr>"
      let ?s3' = "?s3\<lparr>vecs := (vecs ?s3)(this \<mapsto> v\<lparr>m_data := ?nv\<rparr>)\<rparr>"
      have R: "andthen (uninitialized_move_n T (?old, 0) pos (m_buffer ?nv, 0)) (\<lambda>_.
         andthen (uninitialized_move_n T (?old, pos) (?n - pos) (m_buffer ?nv, pos + 1)) (\<lambda>_.
         destroy_n (?old, 0) ?n)) ?s2 = (Inr (), ?s3)"
        using relocate_by_move[OF hb hd ne b(3) posb nb refl, of T] by (simp add: b(2))
      have D: "Deallocate ?old ?s3' = (Inr (), ?s3'\<lparr>heap := (heap ?s3')(?old := None),
          avail := avail ?s3' + length (replicate (length b) (None :: 'a option))\<rparr>)"
        using ne b(4) by (intro Deallocate_block) simp_all
      have "EmplaceWithReallocate T this pos a s = (Inr (), ?s3'\<lparr>heap := (heap ?s3')(?old := None),
          avail := avail ?s3' + length (replicate (length b) (None :: 'a option))\<rparr>)"
        by (rule EmplaceWithReallocate_by_move[OF v pos m A C R D])
      then show ?thesis using m ne b(2,5) by (simp add: relocation_event_def)
    next
      case c: False
      let ?s3 = "?s2\<lparr>heap := (heap ?s2)(?old \<mapsto> replicate (length b) None, ?new \<mapsto> ?NEW),
                 copies := copies ?s2 + length b,
                 trace := trace ?s2 @ replicate (length b) CopyCtor @ replicate (length b) Dtor\<rparr>"
      let ?s3' = "?s3\<lparr>vecs := (vecs ?s3)(this \<mapsto> v\<lparr>m_data := ?nv\<rparr>)\<rparr>"
      have ntc: "\<forall>k<length b. \<not> copy_throws T (copies ?s2 + k)"
        using nt c b(2) by (auto simp: relocation_event_def add.assoc)
      have R: "andthen (uninitialized_copy_n T (?old, 0) pos (m_buffer ?nv, 0)) (\<lambda>_.
         andthen (uninitialized_copy_n T (?old, pos) (?n - pos) (m_buffer ?nv, pos + 1)) (\<lambda>_.
         destroy_n (?old, 0) ?n)) ?s2 = (Inr (), ?s3)"
        using relocate_by_copy[OF hb hd ne b(3) posb nb refl ntc] by (simp add: b(2))
      have D: "Deallocate ?old ?s3' = (Inr (), ?s3'\<lparr>heap := (heap ?s3')(?old := None),
          avail := avail ?s3' + length (replicate (length b) (None :: 'a option))\<rparr>)"
        using ne b(4) by (intro Deallocate_block) simp_all
      have "EmplaceWithReallocate T this pos a s = (Inr (), ?s3'\<lparr>heap := (heap ?s3')(?old := None),
          avail := avail ?s3' + length (replicate (length b) (None :: 'a option))\<rparr>)"
        by (rule EmplaceWithReallocate_by_copy[OF v pos c A C R D])
      then show ?thesis using c ne b(2,5) by (simp add: relocation_event_def)
    qed
  qed
qed

lemma Reserve_by_move:
  assumes "vecs s this = Some v" "m_capacity (m_data v) < n"
    "nothrow_move_constructible T \<or> \<not> copy_constructible T"
    "RawMemory_ctor n s = (Inr nv, s1)"
    "andthen (uninitialized_move_n T (m_buffer (m_data v), 0) (m_size v) (m_buffer nv, 0)) (\<lambda>_.
     destroy_n (m_buffer (m_data v), 0) (m_size v)) s1 = (Inr (), s3)"
    "Deallocate (m_buffer (m_data v)) (s3\<lparr>vecs := (vecs s3)(this \<mapsto> v\<lparr>m_data := nv\<rparr>)\<rparr>)
       = (Inr (), s4)"
  shows "Reserve T this n s = (Inr (), s4)"
  using assms
  by (simp add: Reserve_def get_vec_def andthen_def unwinding_def put_vec_def
      RawMemory_Swap_eq RawMemory_dtor_def GetAddress_def Let_def
      split del: if_split)

lemma Reserve_by_copy:
  assumes "vecs s this = Some v" "m_capacity (m_data v) < n"
    "\<not> (nothrow_move_constructible T \<or> \<not> copy_constructible T)"
    "RawMemory_ctor n s = (Inr nv, s1)"
    "andthen (uninitialized_copy_n T (m_buffer (m_data v), 0) (m_size v) (m_buffer nv, 0)) (\<lambda>_.
     destroy_n (m_buffer (m_data v), 0) (m_size v)) s1 = (Inr (), s3)"
    "Deallocate (m_buffer (m_data v)) (s3\<lparr>vecs := (vecs s3)(this \<mapsto> v\<lparr>m_data := nv\<rparr>)\<rparr>)
       = (Inr (), s4)"
  shows "Reserve T this n s = (Inr (), s4)"
  using assms
  by (simp add: Reserve_def get_vec_def andthen_def unwinding_def put_vec_def
      RawMemory_Swap_eq RawMemory_dtor_def GetAddress_def Let_def
      split del: if_split)

lemma owns_block_nonempty:
  assumes o: "owns_block v s" and c: "0 < m_capacity (m_data v)"
  shows "\<exists>b. heap s (m_buffer (m_data v)) = Some b \<and> length b = m_capacity (m_data v) \<and>
    live (take (m_size v) b) \<and> raw (drop (m_size v) b) \<and> m_size v \<le> length b \<and>
    m_buffer (m_data v) \<noteq> nullptr \<and> block_of v s = b"
proof -
  from o c have nn: "m_buffer (m_data v) \<noteq> nullptr" and le: "m_size v \<le> m_capacity (m_data v)"
    by (simp_all add: owns_block_def)
  from o c obtain b where b: "heap s (m_buffer (m_data v)) = Some b"
    by (cases "heap s (m_buffer (m_data v))") (simp_all add: owns_block_def)
  with o c have "length b = m_capacity (m_data v) \<and> live (take (m_size v) b) \<and> raw (drop (m_size v) b)"
    by (auto simp: owns_block_def)
  with b nn le show ?thesis by (simp add: block_of_def)
qed

lemma raw_replicate_range: "raw (take n (drop i (replicate m None)))"
  unfolding raw_range by simp

lemma Reserve_state:
  fixes T :: "'a elem_type"
  assumes v: "vecs s this = Some v" and o: "owns_block v s"
    and grow: "m_capacity (m_data v) < n" and al: "can_allocate n s"
    and nt: "\<forall>k < (if relocation_event T = MoveCtor then 0 else m_size v).
               \<not> copy_throws T (copies s + k)"
  shows "\<exists>s'. Reserve T this n s = (Inr (), s') \<and>
           vecs s' = (vecs s)(this \<mapsto> v\<lparr>m_data := \<lparr>m_buffer = brk s, m_capacity = n\<rparr>\<rparr>) \<and>
           heap s' (brk s) = Some (take (m_size v) (block_of v s) @ replicate (n - m_size v) None) \<and>
           trace s' = trace s @ replicate (m_size v) (relocation_event T) @ replicate (m_size v) Dtor"
proof -
  let ?new = "brk s" and ?old = "m_buffer (m_data v)" and ?n = "m_size v"
  let ?nv = "\<lparr>m_buffer = ?new, m_capacity = n\<rparr>"
  let ?d = "replicate n (None :: 'a option)"
  let ?s1 = "s\<lparr>heap := (heap s)(?new \<mapsto> ?d), brk := brk s + 1, avail := avail s - n\<rparr>"
  have npos: "0 < n" using grow by simp
  have fresh: "heap s ?new = None" "?new \<noteq> nullptr" using al by (simp_all add: can_allocate_def)
  have A: "RawMemory_ctor n s = (Inr ?nv, ?s1)"
    by (rule RawMemory_ctor_eq[OF al npos])
  show ?thesis
  proof (cases "m_capacity (m_data v) = 0")
    case True
    with o have e: "?n = 0" "?old = nullptr" by (simp_all add: owns_block_def)
    let ?s4 = "?s1\<lparr>vecs := (vecs ?s1)(this \<mapsto> v\<lparr>m_data := ?nv\<rparr>)\<rparr>"
    have D: "Deallocate ?old ?s4 = (Inr (), ?s4)"
      using e by (simp add: Deallocate_def)
    have "Reserve T this n s = (Inr (), ?s4)"
    proof (cases "nothrow_move_constructible T \<or> \<not> copy_constructible T")
      case m: True
      show ?thesis
        by (rule Reserve_by_move[OF v grow m A _ D]) (simp add: e ok_def)
    next
      case c: False
      show ?thesis
        by (rule Reserve_by_copy[OF v grow c A _ D]) (simp add: e ok_def)
    qed
    then show ?thesis using e by simp
  next
    case False
    then have cpos: "0 < m_capacity (m_data v)" by simp
    from owns_block_nonempty[OF o cpos] obtain b where b: "heap s ?old = Some b"
      "length b = m_capacity (m_data v)" "live (take ?n b)" "raw (drop ?n b)" "?n \<le> length b"
      "?old \<noteq> nullptr" "block_of v s = b" by blast
    have ne: "?old \<noteq> ?new" using b(1) fresh(1) by auto
    have hb: "heap ?s1 ?old = Some b" using b(1) ne by simp
    have hd: "heap ?s1 ?new = Some ?d" by simp
    have r1: "0 + ?n \<le> length b" "0 + ?n \<le> length ?d" using b(2,5) grow by simp_all
    have l1: "live (take ?n (drop 0 b))" using b(3) by simp
    show ?thesis
    proof (cases "nothrow_move_constructible T \<or> \<not> copy_constructible T")
      case m: True
      let ?bA = "take 0 b @ map (map_option (moved_from T)) (take ?n (drop 0 b)) @ drop (0 + ?n) b"
      let ?dA = "take 0 ?d @ take ?n (drop 0 b) @ drop (0 + ?n) ?d"
      let ?sA = "?s1\<lparr>heap := (heap ?s1)(?old \<mapsto> ?bA, ?new \<mapsto> ?dA),
                   trace := trace ?s1 @ replicate ?n MoveCtor\<rparr>"
      have M: "uninitialized_move_n T (?old, 0) ?n (?new, 0) ?s1 = (Inr (), ?sA)"
        by (rule uninitialized_move_n_across[OF hb hd ne r1 l1 raw_replicate_range])
      let ?sB = "?sA\<lparr>heap := (heap ?sA)(?old \<mapsto> take 0 ?bA @ replicate ?n None @ drop (0 + ?n) ?bA),
                   trace := trace ?sA @ replicate ?n Dtor\<rparr>"
      have hA: "heap ?sA ?old = Some ?bA" using ne by simp
      have lA: "live (take ?n (drop 0 ?bA))"
        using b(5) live_map[OF b(3)] by simp
      have De: "destroy_n (?old, 0) ?n ?sA = (Inr (), ?sB)"
        by (rule destroy_n_block[OF hA _ lA]) (use b(5) in simp)
      have R: "andthen (uninitialized_move_n T (?old, 0) ?n (m_buffer ?nv, 0)) (\<lambda>_.
           destroy_n (?old, 0) ?n) ?s1 = (Inr (), ?sB)"
        using M De by (simp add: andthen_def)
      let ?s3' = "?sB\<lparr>vecs := (vecs ?sB)(this \<mapsto> v\<lparr>m_data := ?nv\<rparr>)\<rparr>"
      have D: "Deallocate ?old ?s3' = (Inr (), ?s3'\<lparr>heap := (heap ?s3')(?old := None),
          avail := avail ?s3' + length (take 0 ?bA @ replicate ?n None @ drop (0 + ?n) ?bA)\<rparr>)"
        using ne b(6) by (intro Deallocate_block) simp_all
      have "Reserve T this n s = (Inr (), ?s3'\<lparr>heap := (heap ?s3')(?old := None),
          avail := avail ?s3' + length (take 0 ?bA @ replicate ?n None @ drop (0 + ?n) ?bA)\<rparr>)"
        by (rule Reserve_by_move[OF v grow m A R D])
      then show ?thesis using m ne b(7) by (simp add: relocation_event_def)
    next
      case c: False
      let ?dA = "take 0 ?d @ take ?n (drop 0 b) @ drop (0 + ?n) ?d"
      let ?sA = "?s1\<lparr>heap := (heap ?s1)(?new \<mapsto> ?dA), copies := copies ?s1 + ?n,
                   trace := trace ?s1 @ replicate ?n CopyCtor\<rparr>"
      have ntc: "\<forall>k<?n. \<not> copy_throws T (copies ?s1 + k)"
        using nt c by (simp add: relocation_event_def)
      have M: "uninitialized_copy_n T (?old, 0) ?n (?new, 0) ?s1 = (Inr (), ?sA)"
        by (rule uninitialized_copy_n_across[OF hb hd ne r1 l1 raw_replicate_range ntc])
      let ?sB = "?sA\<lparr>heap := (heap ?sA)(?old \<mapsto> take 0 b @ replicate ?n None @ drop (0 + ?n) b),
                   trace := trace ?sA @ replicate ?n Dtor\<rparr>"
      have hA: "heap ?sA ?old = Some b" using ne b(1) by simp
      have De: "destroy_n (?old, 0) ?n ?sA = (Inr (), ?sB)"
        by (rule destroy_n_block[OF hA _ l1]) (use b(5) in simp)
      have R: "andthen (uninitialized_copy_n T (?old, 0) ?n (m_buffer ?nv, 0)) (\<lambda>_.
           destroy_n (?old, 0) ?n) ?s1 = (Inr (), ?sB)"
        using M De by (simp add: andthen_def)
      let ?s3' = "?sB\<lparr>vecs := (vecs ?sB)(this \<mapsto> v\<lparr>m_data := ?nv\<rparr>)\<rparr>"
      have D: "Deallocate ?old ?s3' = (Inr (), ?s3'\<lparr>heap := (heap ?s3')(?old := None),
          avail := avail ?s3' + length (take 0 b @ replicate ?n None @ drop (0 + ?n) b)\<rparr>)"
        using ne b(6) by (intro Deallocate_block) simp_all
      have "Reserve T this n s = (Inr (), ?s3'\<lparr>heap := (heap ?s3')(?old := None),
          avail := avail ?s3' + length (take 0 b @ replicate ?n None @ drop (0 + ?n) b)\<rparr>)"
        by (rule Reserve_by_copy[OF v grow c A R D])
      then show ?thesis using c ne b(7) by (simp add: relocation_event_def)
    qed
  qed
qed

subsection \<open>The claims\<close>

text \<open>
  C2, on the code. Move-assigning the \<^verbatim>\<open>RawMemory\<close> at address 1 (block 2, capacity 3)
  to the one at address 0 (block 1, capacity 2) gives the target the source's block and
  capacity and sets the source's capacity to 0, but the source is left holding the
  address of the target's former block, which has been released: its stored address is
  not null, and its destructor releases that block a second time.
\<close>

theorem RawMemory_move_assign_source_dangles:
  "raws (two_buffers 8) 0 = Some \<lparr>m_buffer = 1, m_capacity = 2\<rparr> \<and>
   raws (two_buffers 8) 1 = Some \<lparr>m_buffer = 2, m_capacity = 3\<rparr> \<and>
   fst (RawMemory_move_assign 0 1 (two_buffers 8)) = Inr () \<and>
   raws (snd (RawMemory_move_assign 0 1 (two_buffers 8))) 0 = Some \<lparr>m_buffer = 2, m_capacity = 3\<rparr> \<and>
   raws (snd (RawMemory_move_assign 0 1 (two_buffers 8))) 1 = Some \<lparr>m_buffer = 1, m_capacity = 0\<rparr> \<and>
   heap (snd (RawMemory_move_assign 0 1 (two_buffers 8))) 1 = None \<and>
   fst (RawMemory_destroy 1 (snd (RawMemory_move_assign 0 1 (two_buffers 8)))) = Inl undefined_behaviour"
  by code_simp

text \<open>
  C7. The scenario: after the three \<^verbatim>\<open>PushBack\<close> calls the size is 3, the capacity is at
  least 3 and the contents are [1,2,3]; \<^verbatim>\<open>Insert(begin() + 1, 99)\<close> returns
  \<^verbatim>\<open>begin() + 1\<close> and gives [1,99,2,3]; \<^verbatim>\<open>Erase(begin() + 2)\<close> returns \<^verbatim>\<open>begin() + 2\<close> and
  gives [1,99,3]; \<^verbatim>\<open>PopBack()\<close> gives [1,99] and size 2.
\<close>

theorem scenario_push_insert_erase_pop:
  "size_of 0 pushed = 3 \<and> 3 \<le> capacity_of 0 pushed \<and> elements 0 pushed = Some [1, 2, 3] \<and>
   fst (Insert_rvalue int_type 0 1 99 pushed) = Inr 1 \<and>
   elements 0 inserted = Some [1, 99, 2, 3] \<and>
   fst (Erase int_type 0 2 inserted) = Inr 2 \<and>
   elements 0 erased = Some [1, 99, 3] \<and>
   fst (PopBack 0 erased) = Inr () \<and>
   elements 0 popped = Some [1, 99] \<and> size_of 0 popped = 2"
  by code_simp

text \<open>
  C10. Self-assignment is a no-op: copy-assignment and move-assignment of the vector at
  \<open>this\<close> to itself return at once and leave the whole machine state, hence the size, the
  capacity and the elements of the vector, as it was.
\<close>

theorem self_assignment_is_noop:
  "Vector_copy_assign T this this s = (Inr (), s) \<and> Vector_move_assign this this s = (Inr (), s)"
  by (simp add: Vector_copy_assign_def Vector_move_assign_def ok_def)

text \<open>
  C3, as amended. Along every sequence of \<^verbatim>\<open>PushBack\<close>, \<^verbatim>\<open>Insert\<close>, \<^verbatim>\<open>Emplace\<close>,
  \<^verbatim>\<open>EmplaceBack\<close>, \<^verbatim>\<open>Erase\<close>, \<^verbatim>\<open>PopBack\<close>, \<^verbatim>\<open>Resize\<close>, \<^verbatim>\<open>Reserve\<close> and copy-assignment
  calls, on whatever vectors, the capacity of every vector at the end is at least its
  capacity at the start. (\<^verbatim>\<open>Swap\<close> and move-assignment exchange blocks and are excluded.)
\<close>

theorem capacity_never_shrinks:
  assumes "\<forall>c \<in> set cs. \<not> exchanges c"
  shows "capacity_of this s \<le> capacity_of this (snd (run T cs s))"
  using cap_le_run[OF assms] by (simp add: cap_le_def)


theorem capacity_never_shrinks_witness:
  "capacity_of 0 two_vectors
     \<le> capacity_of 0 (snd (run int_type [Call_PushBack 0 (Rvalue 5), Call_Resize 0 0,
          Call_copy_assign 0 1, Call_Reserve 0 9, Call_Erase 0 0] two_vectors))"
proof -
  have h: "\<forall>c \<in> set [Call_PushBack 0 (Rvalue (5::int)), Call_Resize 0 0, Call_copy_assign 0 1,
                 Call_Reserve 0 9, Call_Erase 0 0]. \<not> exchanges c"
    by simp
  show ?thesis
    using capacity_never_shrinks[OF h, of 0 two_vectors int_type] .
qed

text \<open>
  C3 as stated fails: the vector at address 0 has capacity 4, and after \<^verbatim>\<open>Swap\<close> with, or
  move-assignment from, the vector at address 1 (capacity 1) its capacity is 1.
\<close>

theorem capacity_shrinks_by_exchange:
  "capacity_of 0 two_vectors = 4 \<and>
   capacity_of 0 (snd (run int_type [Call_Swap 0 1] two_vectors)) = 1 \<and>
   capacity_of 0 (snd (run int_type [Call_move_assign 0 1] two_vectors)) = 1 \<and>
   \<not> capacity_of 0 two_vectors
       \<le> capacity_of 0 (snd (run int_type [Call_move_assign 0 1] two_vectors))"
  by code_simp

text \<open>
  C8. \<^verbatim>\<open>Resize(0)\<close> on a well-formed, non-empty vector succeeds; afterwards the size is 0
  and the vector has no elements, every slot of its block is raw storage again, one
  destructor has run for each former element, and the capacity is what it was.
\<close>

theorem Resize_zero_keeps_capacity:
  assumes "vecs s this = Some v" and "wf_vector this s" and "0 < m_size v"
  shows "fst (Resize T this 0 s) = Inr () \<and>
         size_of this (snd (Resize T this 0 s)) = 0 \<and>
         elements this (snd (Resize T this 0 s)) = Some [] \<and>
         heap (snd (Resize T this 0 s)) (m_buffer (m_data v))
           = Some (replicate (m_capacity (m_data v)) None) \<and>
         trace (snd (Resize T this 0 s)) = trace s @ replicate (m_size v) Dtor \<and>
         capacity_of this (snd (Resize T this 0 s)) = capacity_of this s"
  using assms(1) unfolding Resize_zero_state[OF assms]
  by (simp add: size_of_def capacity_of_def elements_def live_def)

theorem Resize_zero_keeps_capacity_witness:
  "vecs pushed 0 = Some \<lparr>m_data = \<lparr>m_buffer = 3, m_capacity = 4\<rparr>, m_size = 3\<rparr> \<and>
   wf_vector 0 pushed \<and>
   size_of 0 (snd (Resize int_type 0 0 pushed)) = 0 \<and>
   capacity_of 0 (snd (Resize int_type 0 0 pushed)) = 4"
proof -
  have v: "vecs pushed 0 = Some \<lparr>m_data = \<lparr>m_buffer = 3, m_capacity = 4\<rparr>, m_size = 3\<rparr>"
    by code_simp
  have wf: "wf_vector 0 pushed"
    by code_simp
  have c: "capacity_of 0 pushed = 4"
    by code_simp
  show ?thesis
    using v wf c Resize_zero_keeps_capacity[OF v wf, of int_type] by simp
qed

text \<open>
  C1, as amended. Let the vector at \<open>rhs\<close> be well-formed, so that it holds elements
  \<open>e1..en\<close>. Move-construction of a new vector at \<open>this\<close> from it leaves the new vector
  with exactly these elements in the same order and the source default-valued (size 0,
  capacity 0, no block). Move-assignment to a different well-formed vector at \<open>this\<close>
  that does not share its block leaves the target with exactly these elements; the
  source is left default-valued when the target's capacity was below \<open>n\<close>, and is left
  with the target's former block, size and elements otherwise.
\<close>

theorem move_hands_over_elements:
  assumes ne: "this \<noteq> rhs" and r: "vecs s rhs = Some r" and wr: "wf_vector rhs s"
  shows "elements rhs s \<noteq> None \<and>
         fst (Vector_move_ctor this rhs s) = Inr () \<and>
         elements this (snd (Vector_move_ctor this rhs s)) = elements rhs s \<and>
         vecs (snd (Vector_move_ctor this rhs s)) rhs = Some Vector_default \<and>
         (vecs s this = Some v \<and> wf_vector this s \<and>
          (m_buffer (m_data v) = nullptr \<or> m_buffer (m_data v) \<noteq> m_buffer (m_data r)) \<longrightarrow>
            fst (Vector_move_assign this rhs s) = Inr () \<and>
            elements this (snd (Vector_move_assign this rhs s)) = elements rhs s \<and>
            (if m_capacity (m_data v) < m_size r
             then vecs (snd (Vector_move_assign this rhs s)) rhs = Some Vector_default
             else vecs (snd (Vector_move_assign this rhs s)) rhs = Some v \<and>
                  elements rhs (snd (Vector_move_assign this rhs s)) = elements this s))"
proof (intro conjI impI)
  show "elements rhs s \<noteq> None" using wr by (rule wf_vector_elements)
  show "fst (Vector_move_ctor this rhs s) = Inr ()"
    by (simp add: Vector_move_ctor_state[OF r ne])
  show "elements this (snd (Vector_move_ctor this rhs s)) = elements rhs s"
    using r by (intro elements_same_block[where r = r]) (simp_all add: Vector_move_ctor_state[OF r ne])
  show "vecs (snd (Vector_move_ctor this rhs s)) rhs = Some Vector_default"
    using ne by (simp add: Vector_move_ctor_state[OF r ne])
next
  assume a: "vecs s this = Some v \<and> wf_vector this s \<and>
          (m_buffer (m_data v) = nullptr \<or> m_buffer (m_data v) \<noteq> m_buffer (m_data r))"
  then have v: "vecs s this = Some v" and o: "owns_block v s"
    by (auto simp: wf_vector_def)
  let ?s' = "snd (Vector_move_assign this rhs s)"
  show "fst (Vector_move_assign this rhs s) = Inr ()"
    using Vector_move_assign_swap[OF ne v r] Vector_move_assign_temp[OF ne v r _ o]
    by (cases "m_capacity (m_data v) < m_size r") simp_all
  show "elements this ?s' = elements rhs s"
  proof (cases "m_capacity (m_data v) < m_size r")
    case True
    from wr r True have "m_buffer (m_data r) \<noteq> nullptr"
      by (auto simp: wf_vector_def owns_block_def split: if_splits)
    with a have "m_buffer (m_data r) \<noteq> m_buffer (m_data v)" by auto
    with Vector_move_assign_temp[OF ne v r True o] r show ?thesis
      by (intro elements_same_block[where r = r]) simp_all
  next
    case False
    with Vector_move_assign_swap[OF ne v r False] r show ?thesis
      by (intro elements_same_block[where r = r]) simp_all
  qed
  show "if m_capacity (m_data v) < m_size r
        then vecs ?s' rhs = Some Vector_default
        else vecs ?s' rhs = Some v \<and> elements rhs ?s' = elements this s"
  proof (cases "m_capacity (m_data v) < m_size r")
    case True
    with Vector_move_assign_temp[OF ne v r True o] ne show ?thesis by simp
  next
    case False
    have "elements rhs ?s' = elements this s"
      using v ne by (intro elements_same_block[where r = v])
        (simp_all add: Vector_move_assign_swap[OF ne v r False])
    with False ne show ?thesis by (simp add: Vector_move_assign_swap[OF ne v r False])
  qed
qed

theorem move_hands_over_elements_witness:
  "elements 0 (snd (Vector_new 5 pushed)) = Some [1, 2, 3] \<and>
   elements 5 (snd (Vector_move_ctor 5 0 (snd (Vector_new 5 pushed)))) = Some [1, 2, 3] \<and>
   fst (Vector_move_assign 5 0 (snd (Vector_new 5 pushed))) = Inr () \<and>
   elements 5 (snd (Vector_move_assign 5 0 (snd (Vector_new 5 pushed)))) = Some [1, 2, 3] \<and>
   vecs (snd (Vector_move_assign 5 0 (snd (Vector_new 5 pushed)))) 0 = Some Vector_default"
proof -
  let ?s = "snd (Vector_new 5 pushed)"
  let ?r = "\<lparr>m_data = \<lparr>m_buffer = 3, m_capacity = 4\<rparr>, m_size = 3\<rparr>"
  have ne: "(5::nat) \<noteq> 0" by simp
  have r: "vecs ?s 0 = Some ?r" by code_simp
  have wr: "wf_vector 0 ?s" by code_simp
  have v: "vecs ?s 5 = Some Vector_default" by code_simp
  have wv: "wf_vector 5 ?s" by code_simp
  have n: "m_buffer (m_data Vector_default) = nullptr" by code_simp
  have c: "m_capacity (m_data Vector_default) < m_size ?r" by code_simp
  have e: "elements 0 ?s = Some [1, 2, 3]" by code_simp
  show ?thesis
    using move_hands_over_elements[OF ne r wr, of Vector_default] v wv n c e by simp
qed

text \<open>
  C1 as stated fails for move-assignment into a vector whose capacity suffices: with
  [7] at address 0 and [1] at address 1, after the move-assignment of the second to
  the first the source holds [7] and has size 1, not 0.
\<close>

theorem move_assign_source_not_empty:
  "elements 0 two_singletons = Some [7] \<and> elements 1 two_singletons = Some [1] \<and>
   fst (Vector_move_assign 0 1 two_singletons) = Inr () \<and>
   elements 0 (snd (Vector_move_assign 0 1 two_singletons)) = Some [1] \<and>
   elements 1 (snd (Vector_move_assign 0 1 two_singletons)) = Some [7] \<and>
   size_of 1 (snd (Vector_move_assign 0 1 two_singletons)) \<noteq> 0"
  by code_simp

end
